theory Spec2Isabelle
  imports Main "HOL-Library.AList"
begin

section \<open>Data model of \<open>extracutu.js\<close>\<close>

text \<open>
  The session object built by \<open>createSession\<close>.  \<open>screenshots\<close> and
  \<open>extractedTexts\<close> are JavaScript arrays written by index, so they can be sparse:
  an element is \<open>None\<close> for a hole and \<open>Some p\<close> for a stored string.
\<close>

record session =
  userId :: string
  chatId :: string
  screenshots :: "string option list"
  extractedTexts :: "string option list"
  startTime :: int

text \<open>An inbound text update: \<open>ctx.message.text\<close>, \<open>chat.id\<close> and \<open>from.id\<close>
  (the user name is only used for console output, which is not modelled).\<close>

record message =
  msg_text :: string
  msg_chat :: string
  msg_from :: string

text \<open>Errors thrown by the collaborators: a Telegram call that rejects, the capture
  (\<open>takeScreenshot\<close> rethrows as \<open>Error\<close>), and \<open>fs.unlink\<close>.\<close>

datatype exn = NetworkError | CaptureError | FsError

text \<open>The reply templates of the source, one constructor per template, with the values
  interpolated into it.  The percentage of the progress line is left out.\<close>

datatype reply =
    ProcessingRequest
  | ExtractedTextMsg string
  | ClaudeAnswerMsg string
  | FailedScreenshot
  | TakingScreenshot nat
  | Captured nat nat
  | NoScreenshots
  | StartingProcess nat
  | ProcessingComplete
  | CommandFailed nat exn
  | StartingOCR nat
  | Progress nat nat
  | TextExtracted int nat string
  | ExtractFailed int
  | ItemFailed int exn
  | OCRComplete nat nat
  | AllExtractedText string
  | SendingToClaude
  | Answer string
  | ClaudeError exn

datatype caption = Caption_single | Caption_batch int | Caption_stack nat

datatype outbound =
    Reply reply
  | Photo string caption
  | Document string
  | DeleteMessage nat

datatype gemini_call = Upload string | OcrPrompt string

datatype ocr_outcome = UploadFailed | ServiceError | Text string

text \<open>The pieces appended to \<open>combinedResponse\<close> after its fixed header.\<close>

datatype part =
    AnswerPart string
  | ClaudeErrorPart exn
  | SummaryPart nat nat int int

datatype response = NoScreenshotsToProcess | Combined "part list"

text \<open>
  The mutable state of the process: the \<open>userSessions\<close> map (a JavaScript \<open>Map\<close>,
  which keeps insertion order), the files of the screenshots directory, and logs of what
  went out: Telegram calls that succeeded, calls to the extraction service, prompts sent
  to the answer service.  \<open>sends\<close> counts the Telegram calls attempted and \<open>ticks\<close>
  the readings of \<open>Date.now()\<close>.
\<close>

record world =
  userSessions :: "(string \<times> session) list"
  files :: "string set"
  outbox :: "outbound list"
  gemini_log :: "gemini_call list"
  claude_log :: "string list"
  sends :: nat
  ticks :: nat

text \<open>
  \<open>CONFIG\<close>, the environment variables and the behaviour of the collaborators.
  The collaborators are oracles: \<open>clock\<close> gives the n-th reading of \<open>Date.now()\<close>,
  \<open>net_ok\<close> tells whether the n-th Telegram call succeeds, \<open>capture_ok\<close> whether
  the capture stamped with a time succeeds, \<open>ocr\<close> what the extraction service does
  with an image, \<open>claude\<close> what the answer service returns (\<open>None\<close> when the request
  throws), \<open>unlink_denied\<close> which files the operating system refuses to delete.
\<close>

record env =
  gemini_ocr :: bool
  chatgpt_answer :: bool
  session_timeout :: int
  CHAT_IDS :: "string set"
  IMAGES_DIR :: string
  clock :: "nat \<Rightarrow> int"
  net_ok :: "nat \<Rightarrow> bool"
  capture_ok :: "int \<Rightarrow> bool"
  ocr :: "string \<Rightarrow> ocr_outcome"
  claude :: "string \<Rightarrow> string option"
  unlink_denied :: "string \<Rightarrow> bool"

section \<open>Computations that change the state and may throw\<close>

type_synonym ('s, 'a) io = "'s \<Rightarrow> (exn + 'a) \<times> 's"

definition io_ret :: "'a \<Rightarrow> ('s, 'a) io" where
  "io_ret x = (\<lambda>s. (Inr x, s))"

definition io_bind :: "('s, 'a) io \<Rightarrow> ('a \<Rightarrow> ('s, 'b) io) \<Rightarrow> ('s, 'b) io" where
  "io_bind m f = (\<lambda>s. case m s of (Inl x, s') \<Rightarrow> (Inl x, s') | (Inr a, s') \<Rightarrow> f a s')"

definition io_catch :: "('s, 'a) io \<Rightarrow> (exn \<Rightarrow> ('s, 'a) io) \<Rightarrow> ('s, 'a) io" where
  "io_catch m h = (\<lambda>s. case m s of (Inl x, s') \<Rightarrow> h x s' | (Inr a, s') \<Rightarrow> (Inr a, s'))"

definition io_total :: "('s \<Rightarrow> 'a \<times> 's) \<Rightarrow> ('s, 'a) io" where
  "io_total f = (\<lambda>s. case f s of (a, s') \<Rightarrow> (Inr a, s'))"

definition io_gets :: "('s \<Rightarrow> 'a) \<Rightarrow> ('s, 'a) io" where
  "io_gets f = (\<lambda>s. (Inr (f s), s))"

definition io_modify :: "('s \<Rightarrow> 's) \<Rightarrow> ('s, unit) io" where
  "io_modify f = (\<lambda>s. (Inr (), f s))"

section \<open>JavaScript values\<close>

text \<open>Truthiness of an array element or of a returned string: a hole, \<open>null\<close> and the
  empty string are falsy.\<close>

definition truthy :: "string option \<Rightarrow> bool" where
  "truthy v = (case v of None \<Rightarrow> False | Some s \<Rightarrow> s \<noteq> [])"

text \<open>\<open>arr.filter(s => s)\<close> and \<open>arr.filter(Boolean)\<close>.\<close>

definition filter_truthy :: "string option list \<Rightarrow> string list" where
  "filter_truthy xs = map the (filter truthy xs)"

text \<open>\<open>arr.forEach\<close> visits the elements that are present, falsy or not.\<close>

definition present :: "string option list \<Rightarrow> string list" where
  "present xs = map the (filter (\<lambda>v. v \<noteq> None) xs)"

text \<open>\<open>arr.findIndex(p)\<close>: the first index whose element satisfies \<open>p\<close>, or \<open>-1\<close>.\<close>

fun findIndex :: "('a \<Rightarrow> bool) \<Rightarrow> 'a list \<Rightarrow> int" where
  "findIndex P [] = - 1"
| "findIndex P (x # xs) =
     (if P x then 0 else (let r = findIndex P xs in if r < 0 then - 1 else r + 1))"

text \<open>\<open>arr[i] = v\<close>: inside the array the element is replaced, beyond its end the array
  grows and the indices in between are holes.\<close>

definition js_set :: "'a option list \<Rightarrow> nat \<Rightarrow> 'a \<Rightarrow> 'a option list" where
  "js_set xs i v =
     (if i < length xs then xs[i := Some v]
      else xs @ replicate (i - length xs) None @ [Some v])"

text \<open>The same with an index that may be \<open>-1\<close>, which sets a property of the array
  object and none of its elements.\<close>

definition js_set_int :: "'a option list \<Rightarrow> int \<Rightarrow> 'a \<Rightarrow> 'a option list" where
  "js_set_int xs i v = (if i < 0 then xs else js_set xs (nat i) v)"

text \<open>Numbers interpolated into a template string.\<close>

fun decimal :: "nat \<Rightarrow> string" where
  "decimal n =
     (if n < 10 then [''0123456789'' ! n]
      else decimal (n div 10) @ [''0123456789'' ! (n mod 10)])"

definition decimal_int :: "int \<Rightarrow> string" where
  "decimal_int i = (if i < 0 then ''-'' @ decimal (nat (- i)) else decimal (nat i))"

text \<open>\<open>toLowerCase\<close> on the ASCII letters; other bytes are left as they are.\<close>

definition lower_char :: "char \<Rightarrow> char" where
  "lower_char c =
     (case map_of (zip ''ABCDEFGHIJKLMNOPQRSTUVWXYZ'' ''abcdefghijklmnopqrstuvwxyz'') c of
        None \<Rightarrow> c | Some l \<Rightarrow> l)"

definition toLowerCase :: "string \<Rightarrow> string" where
  "toLowerCase s = map lower_char s"

text \<open>\<open>s.includes(sub)\<close>.\<close>

fun js_includes :: "string \<Rightarrow> string \<Rightarrow> bool" where
  "js_includes [] sub = (sub = [])"
| "js_includes (c # cs) sub = (take (length sub) (c # cs) = sub \<or> js_includes cs sub)"

text \<open>\<open>/^[0-9]$/.test(message)\<close> followed by \<open>parseInt(message, 10)\<close>: the digit of a
  message that is exactly one decimal digit.\<close>

definition single_digit :: "string \<Rightarrow> nat option" where
  "single_digit s =
     (case s of
        [c] \<Rightarrow> map_of (zip ''0123456789'' [0, 1, 2, 3, 4, 5, 6, 7, 8, 9]) c
      | _ \<Rightarrow> None)"

section \<open>Collaborators\<close>

definition Date_now :: "env \<Rightarrow> world \<Rightarrow> int \<times> world" where
  "Date_now e w = (clock e (ticks w), w\<lparr>ticks := Suc (ticks w)\<rparr>)"

text \<open>A call through \<open>ctx\<close> (\<open>reply\<close>, \<open>replyWithPhoto\<close>, \<open>replyWithDocument\<close>,
  \<open>deleteMessage\<close>).  It returns the id of the message, here the number of the call.
  Whether it succeeds is up to \<open>net_ok\<close>; a photo whose file cannot be read is one of
  the failures that \<open>net_ok\<close> stands for.\<close>

definition send :: "env \<Rightarrow> outbound \<Rightarrow> (world, nat) io" where
  "send e m = (\<lambda>w.
     if net_ok e (sends w)
     then (Inr (sends w), w\<lparr>outbox := outbox w @ [m], sends := Suc (sends w)\<rparr>)
     else (Inl NetworkError, w\<lparr>sends := Suc (sends w)\<rparr>))"

definition unlink :: "env \<Rightarrow> string \<Rightarrow> (world, unit) io" where
  "unlink e p = (\<lambda>w.
     if p \<in> files w \<and> \<not> unlink_denied e p
     then (Inr (), w\<lparr>files := files w - {p}\<rparr>)
     else (Inl FsError, w))"

definition screenshot_path :: "env \<Rightarrow> int \<Rightarrow> string" where
  "screenshot_path e timestamp =
     IMAGES_DIR e @ ''/screenshot-'' @ decimal_int timestamp @ ''.png''"

definition takeScreenshot :: "env \<Rightarrow> (world, string) io" where
  "takeScreenshot e =
     io_bind (io_total (Date_now e)) (\<lambda>timestamp. \<lambda>w.
       if capture_ok e timestamp
       then (Inr (screenshot_path e timestamp),
             w\<lparr>files := insert (screenshot_path e timestamp) (files w)\<rparr>)
       else (Inl CaptureError, w))"

text \<open>\<open>uploadToGemini\<close> returns the uploaded file or \<open>null\<close>; the model returns whether
  there is a file.\<close>

definition uploadToGemini :: "env \<Rightarrow> string \<Rightarrow> world \<Rightarrow> bool \<times> world" where
  "uploadToGemini e filePath w =
     (if \<not> gemini_ocr e then (False, w)
      else (ocr e filePath \<noteq> UploadFailed,
            w\<lparr>gemini_log := gemini_log w @ [Upload filePath]\<rparr>))"

definition extractTextFromImage :: "env \<Rightarrow> string \<Rightarrow> world \<Rightarrow> string option \<times> world" where
  "extractTextFromImage e imagePath w =
     (if \<not> gemini_ocr e then (Some ''Gemini OCR is disabled in feature flags'', w)
      else (case uploadToGemini e imagePath w of
              (False, w1) \<Rightarrow> (None, w1)
            | (True, w1) \<Rightarrow>
                (case ocr e imagePath of
                   Text t \<Rightarrow> (Some t, w1\<lparr>gemini_log := gemini_log w1 @ [OcrPrompt imagePath]\<rparr>)
                 | _ \<Rightarrow> (None, w1\<lparr>gemini_log := gemini_log w1 @ [OcrPrompt imagePath]\<rparr>))))"

definition getAnswerFromChatGPT :: "env \<Rightarrow> string \<Rightarrow> world \<Rightarrow> string \<times> world" where
  "getAnswerFromChatGPT e promptText w =
     (if \<not> chatgpt_answer e then (''Claude answer is disabled in feature flags'', w)
      else (case claude e promptText of
              Some answer \<Rightarrow> (answer, w\<lparr>claude_log := claude_log w @ [promptText]\<rparr>)
            | None \<Rightarrow> (''Failed to get the answer from Claude.'',
                       w\<lparr>claude_log := claude_log w @ [promptText]\<rparr>)))"

section \<open>Session store\<close>

definition createSession :: "env \<Rightarrow> string \<Rightarrow> string \<Rightarrow> world \<Rightarrow> session \<times> world" where
  "createSession e uid cid w =
     (case Date_now e w of
        (now, w1) \<Rightarrow>
          (let s = \<lparr>userId = uid, chatId = cid, screenshots = [], extractedTexts = [],
                    startTime = now\<rparr>
           in (s, w1\<lparr>userSessions := AList.update uid s (userSessions w1)\<rparr>)))"

definition getOrCreateSession :: "env \<Rightarrow> string \<Rightarrow> string \<Rightarrow> world \<Rightarrow> session \<times> world" where
  "getOrCreateSession e uid cid w =
     (case map_of (userSessions w) uid of
        Some s \<Rightarrow> (s, w)
      | None \<Rightarrow> createSession e uid cid w)"

text \<open>
  The callback of \<open>session.screenshots.forEach\<close> in \<open>cleanupSessions\<close>: the unlink is
  issued and a failure is caught and logged.  The callbacks are not awaited; the model
  places the effect of each unlink where it is issued.
\<close>

definition release :: "env \<Rightarrow> string \<Rightarrow> world \<Rightarrow> world" where
  "release e screenshotPath w =
     (case unlink e screenshotPath w of (Inl err, w') \<Rightarrow> w' | (Inr u, w') \<Rightarrow> w')"

definition timeoutMs :: "env \<Rightarrow> int" where
  "timeoutMs e = session_timeout e * 60 * 1000"

definition sweep_entry :: "env \<Rightarrow> int \<Rightarrow> string \<times> session \<Rightarrow> world \<Rightarrow> world" where
  "sweep_entry e now entry w =
     (if now - startTime (snd entry) > timeoutMs e
      then (let w1 = fold (release e) (present (screenshots (snd entry))) w
            in w1\<lparr>userSessions := AList.delete (fst entry) (userSessions w1)\<rparr>)
      else w)"

definition cleanupSessions :: "env \<Rightarrow> world \<Rightarrow> world" where
  "cleanupSessions e w =
     (case Date_now e w of (now, w1) \<Rightarrow> fold (sweep_entry e now) (userSessions w1) w1)"

section \<open>Batch pipeline: \<open>processSessionScreenshots\<close>\<close>

text \<open>
  The state of one call: the session object it was given (mutated in place by the
  source, so it is part of the state and survives a throw), the local variables
  \<open>allExtractedText\<close>, \<open>processedCount\<close> and \<open>combinedResponse\<close>, and the world.
\<close>

record pstate =
  sess :: session
  allExtractedText :: string
  processedCount :: nat
  combinedResponse :: "part list"
  wld :: world

definition in_world :: "(world, 'a) io \<Rightarrow> (pstate, 'a) io" where
  "in_world m = (\<lambda>s. case m (wld s) of (r, w') \<Rightarrow> (r, s\<lparr>wld := w'\<rparr>))"

text \<open>The delimiter and the text appended to \<open>allExtractedText\<close> for one screenshot.\<close>

definition segment :: "int \<Rightarrow> string \<Rightarrow> string" where
  "segment screenshotNumber extractedText =
     [CHR 0x0A, CHR 0x0A] @ ''----- SCREENSHOT '' @ decimal_int screenshotNumber @ '' -----''
       @ [CHR 0x0A, CHR 0x0A] @ extractedText"

definition previewText :: "string \<Rightarrow> string" where
  "previewText extractedText =
     (if length extractedText > 100 then take 100 extractedText @ ''...'' else extractedText)"

text \<open>\<open>CONFIG.gemini_ocr ? await extractTextFromImage(screenshot) : "Gemini OCR is disabled"\<close>\<close>

definition batch_extract :: "env \<Rightarrow> string \<Rightarrow> world \<Rightarrow> string option \<times> world" where
  "batch_extract e screenshot w =
     (if gemini_ocr e then extractTextFromImage e screenshot w
      else (Some ''Gemini OCR is disabled'', w))"

definition screenshotNumber_of :: "string option list \<Rightarrow> string \<Rightarrow> int" where
  "screenshotNumber_of shots screenshot = findIndex (\<lambda>s. s = Some screenshot) shots + 1"

text \<open>The body of the \<open>try\<close> block of the loop.\<close>

definition try_item :: "env \<Rightarrow> nat \<Rightarrow> nat \<Rightarrow> string \<Rightarrow> int \<Rightarrow> (pstate, unit) io" where
  "try_item e totalScreenshots i screenshot screenshotNumber =
     io_bind (in_world (send e (Reply (Progress (i + 1) totalScreenshots)))) (\<lambda>_.
     io_bind (in_world (send e (Photo screenshot (Caption_batch screenshotNumber)))) (\<lambda>_.
     io_bind (in_world (io_total (batch_extract e screenshot))) (\<lambda>extractedText.
     io_bind
       (if truthy extractedText
        then
          io_bind (io_modify (\<lambda>s. s\<lparr>sess := (sess s)\<lparr>extractedTexts :=
                     js_set_int (extractedTexts (sess s)) (screenshotNumber - 1) (the extractedText)\<rparr>,
                   allExtractedText :=
                     allExtractedText s @ segment screenshotNumber (the extractedText)\<rparr>)) (\<lambda>_.
          io_bind (in_world (send e (Reply (TextExtracted screenshotNumber
                     (length (the extractedText)) (previewText (the extractedText)))))) (\<lambda>_.
          io_modify (\<lambda>s. s\<lparr>processedCount := Suc (processedCount s)\<rparr>)))
        else
          io_bind (in_world (send e (Reply (ExtractFailed screenshotNumber)))) (\<lambda>_. io_ret ()))
       (\<lambda>_. in_world (unlink e screenshot)))))"

text \<open>One iteration: the slot number is found again by value, then \<open>try\<close> and \<open>catch\<close>.
  The reply inside \<open>catch\<close> is awaited too, so its failure leaves the function.\<close>

definition process_item :: "env \<Rightarrow> nat \<Rightarrow> nat \<Rightarrow> string \<Rightarrow> (pstate, unit) io" where
  "process_item e totalScreenshots i screenshot =
     io_bind (io_gets (\<lambda>s. screenshotNumber_of (screenshots (sess s)) screenshot))
       (\<lambda>screenshotNumber.
     io_catch (try_item e totalScreenshots i screenshot screenshotNumber)
       (\<lambda>error.
          io_bind (in_world (send e (Reply (ItemFailed screenshotNumber error)))) (\<lambda>_.
          io_ret ())))"

text \<open>\<open>for (let i = 0; i < validScreenshots.length; i++)\<close>, from index \<open>i\<close> on.\<close>

fun ocr_loop :: "env \<Rightarrow> nat \<Rightarrow> nat \<Rightarrow> string list \<Rightarrow> (pstate, unit) io" where
  "ocr_loop e totalScreenshots i [] s = (Inr (), s)"
| "ocr_loop e totalScreenshots i (screenshot # rest) s =
     (case process_item e totalScreenshots i screenshot s of
        (Inl x, s') \<Rightarrow> (Inl x, s')
      | (Inr u, s') \<Rightarrow> ocr_loop e totalScreenshots (Suc i) rest s')"

text \<open>\<open>if (CONFIG.chatgpt_answer && allExtractedText) { ... }\<close>\<close>

definition answer_step :: "env \<Rightarrow> (pstate, unit) io" where
  "answer_step e =
     io_bind (io_gets allExtractedText) (\<lambda>text.
       if chatgpt_answer e \<and> text \<noteq> []
       then
         io_bind (in_world (send e (Reply (AllExtractedText text)))) (\<lambda>_.
         io_bind (in_world (send e (Reply SendingToClaude))) (\<lambda>_.
         io_catch
           (io_bind (in_world (io_total (getAnswerFromChatGPT e text))) (\<lambda>claudeAnswer.
            io_bind (io_modify (\<lambda>s. s\<lparr>combinedResponse :=
                       combinedResponse s @ [AnswerPart claudeAnswer]\<rparr>)) (\<lambda>_.
            io_bind (in_world (send e (Reply (Answer claudeAnswer)))) (\<lambda>_. io_ret ()))))
           (\<lambda>error.
            io_bind (io_modify (\<lambda>s. s\<lparr>combinedResponse :=
                       combinedResponse s @ [ClaudeErrorPart error]\<rparr>)) (\<lambda>_.
            io_bind (in_world (send e (Reply (ClaudeError error)))) (\<lambda>_. io_ret ())))))
       else io_ret ())"

text \<open>\<open>Math.round(ms / 1000)\<close>: to the nearest integer, a half rounds up.\<close>

definition round_seconds :: "int \<Rightarrow> int" where
  "round_seconds ms = (ms + 500) div 1000"

text \<open>The summary lines and the reset at the end of the function.\<close>

definition finish :: "env \<Rightarrow> nat \<Rightarrow> (pstate, response) io" where
  "finish e totalScreenshots =
     io_bind (in_world (io_total (Date_now e))) (\<lambda>now.
     io_bind (io_modify (\<lambda>s. s\<lparr>combinedResponse := combinedResponse s @
                [SummaryPart totalScreenshots (processedCount s)
                   (int totalScreenshots - int (processedCount s))
                   (round_seconds (now - startTime (sess s)))]\<rparr>)) (\<lambda>_.
     io_bind (in_world (io_total (Date_now e))) (\<lambda>now'.
     io_bind (io_modify (\<lambda>s. s\<lparr>sess := (sess s)\<lparr>screenshots := [], extractedTexts := [],
                startTime := now'\<rparr>\<rparr>)) (\<lambda>_.
     io_gets (\<lambda>s. Combined (combinedResponse s))))))"

definition pipeline :: "env \<Rightarrow> nat \<Rightarrow> string list \<Rightarrow> (pstate, response) io" where
  "pipeline e totalScreenshots validScreenshots =
     io_bind (in_world (send e (Reply (StartingOCR totalScreenshots)))) (\<lambda>_.
     io_bind (ocr_loop e totalScreenshots 0 validScreenshots) (\<lambda>_.
     io_bind (io_gets processedCount) (\<lambda>done.
     io_bind (in_world (send e (Reply (OCRComplete done totalScreenshots)))) (\<lambda>_.
     io_bind (answer_step e) (\<lambda>_.
     finish e totalScreenshots)))))"

definition start_state :: "session \<Rightarrow> world \<Rightarrow> pstate" where
  "start_state session w =
     \<lparr>sess = session, allExtractedText = [], processedCount = 0, combinedResponse = [],
      wld = w\<rparr>"

text \<open>The result, the session object as the call leaves it, and the world.\<close>

definition processSessionScreenshots ::
  "env \<Rightarrow> session \<Rightarrow> world \<Rightarrow> (exn + response) \<times> session \<times> world" where
  "processSessionScreenshots e session w =
     (if length (screenshots session) = 0 then (Inr NoScreenshotsToProcess, session, w)
      else
        (case pipeline e (length (filter_truthy (screenshots session)))
                (filter_truthy (screenshots session)) (start_state session w) of
           (r, s) \<Rightarrow> (r, sess s, wld s)))"

section \<open>Command router: \<open>bot.on('text')\<close>\<close>

definition single_shot :: "env \<Rightarrow> (world, unit) io" where
  "single_shot e =
     io_catch
       (io_bind (send e (Reply ProcessingRequest)) (\<lambda>processingMsg.
        io_bind (takeScreenshot e) (\<lambda>screenshotPath.
        io_bind (send e (Photo screenshotPath Caption_single)) (\<lambda>_.
        io_bind (send e (Document screenshotPath)) (\<lambda>_.
        io_bind
          (if gemini_ocr e
           then
             io_bind (io_total (extractTextFromImage e screenshotPath)) (\<lambda>r.
             io_bind (send e (Reply (ExtractedTextMsg
                        (if truthy r then the r else ''Failed to extract text'')))) (\<lambda>_.
             io_ret (if truthy r then the r else ''Failed to extract text'')))
           else io_ret ''No text extracted'')
          (\<lambda>extractedText.
        io_bind
          (if chatgpt_answer e \<and> extractedText \<noteq> [] \<and> extractedText \<noteq> ''Failed to extract text''
           then
             io_bind (io_total (getAnswerFromChatGPT e extractedText)) (\<lambda>claudeAnswer.
             io_bind (send e (Reply (ClaudeAnswerMsg claudeAnswer))) (\<lambda>_. io_ret ()))
           else io_ret ())
          (\<lambda>_.
        io_bind (unlink e screenshotPath) (\<lambda>_.
        io_bind (send e (DeleteMessage processingMsg)) (\<lambda>_. io_ret ())))))))))
       (\<lambda>error. io_bind (send e (Reply FailedScreenshot)) (\<lambda>_. io_ret ()))"

text \<open>
  In the handler \<open>session\<close> is the object stored under \<open>userId\<close>.  The model runs
  a handler to its end before the next handler or the sweep starts (the interleaving of
  handlers at their \<open>await\<close>s is not modelled), so a write to the object is a write to
  that entry of the map.
\<close>

definition store_session :: "string \<Rightarrow> session \<Rightarrow> world \<Rightarrow> world" where
  "store_session uid s w = w\<lparr>userSessions := AList.update uid s (userSessions w)\<rparr>"

text \<open>Digits 1 to 9.\<close>

definition capture_command :: "env \<Rightarrow> nat \<Rightarrow> string \<Rightarrow> session \<Rightarrow> (world, unit) io" where
  "capture_command e digit uid session =
     io_bind (send e (Reply (TakingScreenshot digit))) (\<lambda>_.
     io_bind (takeScreenshot e) (\<lambda>screenshotPath.
     io_bind (io_modify (store_session uid
                (session\<lparr>screenshots := js_set (screenshots session) (digit - 1) screenshotPath\<rparr>)))
       (\<lambda>_.
     io_bind (send e (Photo screenshotPath (Caption_stack digit))) (\<lambda>_.
     io_bind (send e (Reply (Captured digit
                (length (filter_truthy (js_set (screenshots session) (digit - 1) screenshotPath))))))
       (\<lambda>_. io_ret ())))))"

definition run_batch :: "env \<Rightarrow> string \<Rightarrow> session \<Rightarrow> (world, response) io" where
  "run_batch e uid session = (\<lambda>w.
     case processSessionScreenshots e session w of
       (r, session', w') \<Rightarrow> (r, store_session uid session' w'))"

text \<open>Digit 0.\<close>

definition process_command :: "env \<Rightarrow> string \<Rightarrow> session \<Rightarrow> (world, unit) io" where
  "process_command e uid session =
     (if length (filter_truthy (screenshots session)) = 0
      then io_bind (send e (Reply NoScreenshots)) (\<lambda>_. io_ret ())
      else
        io_bind (send e (Reply (StartingProcess (length (filter_truthy (screenshots session))))))
          (\<lambda>processingMsg.
        io_bind (run_batch e uid session) (\<lambda>_.
        io_bind (send e (Reply ProcessingComplete)) (\<lambda>_.
        io_bind (send e (DeleteMessage processingMsg)) (\<lambda>_. io_ret ())))))"

definition stack_command :: "env \<Rightarrow> nat \<Rightarrow> string \<Rightarrow> string \<Rightarrow> (world, unit) io" where
  "stack_command e digit uid cid =
     io_bind (io_total (getOrCreateSession e uid cid)) (\<lambda>session.
     io_catch
       (if 1 \<le> digit \<and> digit \<le> 9 then capture_command e digit uid session
        else if digit = 0 then process_command e uid session
        else io_ret ())
       (\<lambda>error. io_bind (send e (Reply (CommandFailed digit error))) (\<lambda>_. io_ret ())))"

definition handle_text :: "env \<Rightarrow> message \<Rightarrow> (world, unit) io" where
  "handle_text e m =
     (if msg_chat m \<notin> CHAT_IDS e then io_ret ()
      else if js_includes (toLowerCase (msg_text m)) ''ss'' then single_shot e
      else (case single_digit (msg_text m) of
              Some digit \<Rightarrow> stack_command e digit (msg_from m) (msg_chat m)
            | None \<Rightarrow> io_ret ()))"

section \<open>Vocabulary of the properties\<close>

text \<open>What the extraction step of the batch loop yields for a screenshot, and the calls
  to the extraction service it makes (see \<open>batch_extract_eq\<close> below).\<close>

definition extracted :: "env \<Rightarrow> string \<Rightarrow> string option" where
  "extracted e p =
     (if gemini_ocr e then (case ocr e p of Text t \<Rightarrow> Some t | _ \<Rightarrow> None)
      else Some ''Gemini OCR is disabled'')"

definition gemini_calls :: "env \<Rightarrow> string \<Rightarrow> gemini_call list" where
  "gemini_calls e p =
     (if gemini_ocr e
      then (if ocr e p = UploadFailed then [Upload p] else [Upload p, OcrPrompt p])
      else [])"

text \<open>Frame conditions: a computation keeps a relation between the state before and the
  state after, whether it returns or throws.\<close>

definition io_keeps :: "('s \<Rightarrow> 's \<Rightarrow> bool) \<Rightarrow> ('s, 'a) io \<Rightarrow> bool" where
  "io_keeps R m = (\<forall>s. R s (snd (m s)))"

definition preorder_on_states :: "('s \<Rightarrow> 's \<Rightarrow> bool) \<Rightarrow> bool" where
  "preorder_on_states R = ((\<forall>s. R s s) \<and> (\<forall>a b c. R a b \<longrightarrow> R b c \<longrightarrow> R a c))"

definition same_sessions :: "world \<Rightarrow> world \<Rightarrow> bool" where
  "same_sessions w w' = (userSessions w' = userSessions w)"

text \<open>The items of a run whose extraction yields a non-empty text, and the buffer the
  loop is expected to build from a list of screenshots: one segment for each of them, in
  the order of the list, labelled by \<open>screenshotNumber_of\<close>.\<close>

definition successful :: "env \<Rightarrow> string list \<Rightarrow> string list" where
  "successful e ps = filter (\<lambda>p. truthy (extracted e p)) ps"

definition buffer_of :: "env \<Rightarrow> string option list \<Rightarrow> string list \<Rightarrow> string" where
  "buffer_of e shots ps =
     concat (map (\<lambda>p. segment (screenshotNumber_of shots p) (the (extracted e p)))
               (successful e ps))"

definition run_buffer :: "env \<Rightarrow> session \<Rightarrow> string" where
  "run_buffer e session =
     buffer_of e (screenshots session) (filter_truthy (screenshots session))"

definition answer_wanted :: "env \<Rightarrow> session \<Rightarrow> bool" where
  "answer_wanted e session = (chatgpt_answer e \<and> run_buffer e session \<noteq> [])"

text \<open>What \<open>getAnswerFromChatGPT\<close> returns when the answer flag is on.\<close>

definition answer_text :: "env \<Rightarrow> string \<Rightarrow> string" where
  "answer_text e t =
     (case claude e t of Some a \<Rightarrow> a | None \<Rightarrow> ''Failed to get the answer from Claude.'')"

text \<open>The photos among the Telegram calls, with their captions.\<close>

fun photos :: "outbound list \<Rightarrow> (string \<times> caption) list" where
  "photos [] = []"
| "photos (Photo p c # ms) = (p, c) # photos ms"
| "photos (m # ms) = photos ms"

text \<open>The occupied slots of a \<open>screenshots\<close> array with their slot numbers (index plus
  one), in ascending order.\<close>

fun slots_from :: "nat \<Rightarrow> string option list \<Rightarrow> (nat \<times> string) list" where
  "slots_from n [] = []"
| "slots_from n (v # vs) =
     (if truthy v then (n, the v) # slots_from (Suc n) vs else slots_from (Suc n) vs)"

definition occupied_slots :: "string option list \<Rightarrow> (nat \<times> string) list" where
  "occupied_slots shots = slots_from 1 shots"

text \<open>The state in which the loop ends, and the state in which the loop of a whole run
  ends (the run sends its first reply, then loops over the truthy screenshots).\<close>

definition loop_end :: "env \<Rightarrow> nat \<Rightarrow> nat \<Rightarrow> string list \<Rightarrow> pstate \<Rightarrow> pstate" where
  "loop_end e tot i ps s = snd (ocr_loop e tot i ps s)"

definition after_loop :: "env \<Rightarrow> session \<Rightarrow> world \<Rightarrow> pstate" where
  "after_loop e session w =
     loop_end e (length (filter_truthy (screenshots session))) 0
       (filter_truthy (screenshots session))
       (snd (in_world (send e (Reply (StartingOCR (length (filter_truthy (screenshots session))))))
              (start_state session w)))"

text \<open>What the loop never changes.\<close>

definition batch_frame :: "pstate \<Rightarrow> pstate \<Rightarrow> bool" where
  "batch_frame s s' =
     (screenshots (sess s') = screenshots (sess s) \<and>
      startTime (sess s') = startTime (sess s) \<and>
      userId (sess s') = userId (sess s) \<and>
      chatId (sess s') = chatId (sess s) \<and>
      combinedResponse s' = combinedResponse s \<and>
      claude_log (wld s') = claude_log (wld s) \<and>
      ticks (wld s') = ticks (wld s) \<and>
      userSessions (wld s') = userSessions (wld s))"

definition world_frame :: "world \<Rightarrow> world \<Rightarrow> bool" where
  "world_frame w w' =
     (claude_log w' = claude_log w \<and> ticks w' = ticks w \<and> userSessions w' = userSessions w)"




text \<open>A session is expired at a time \<open>now\<close>: the test of \<open>cleanupSessions\<close>.\<close>

definition expired :: "env \<Rightarrow> int \<Rightarrow> session \<Rightarrow> bool" where
  "expired e now s = (now - startTime s > timeoutMs e)"

text \<open>Handling a list of messages, one after the other; a handler that throws ends in
  \<open>bot.catch\<close>, and the next message is handled in the state it left.\<close>

definition handle_all :: "env \<Rightarrow> message list \<Rightarrow> world \<Rightarrow> world" where
  "handle_all e ms w = fold (\<lambda>m w. snd (handle_text e m w)) ms w"

text \<open>The session that \<open>createSession\<close> builds for the sender of a message.\<close>

definition fresh_session :: "env \<Rightarrow> message \<Rightarrow> world \<Rightarrow> session" where
  "fresh_session e m w =
     \<lparr>userId = msg_from m, chatId = msg_chat m, screenshots = [], extractedTexts = [],
      startTime = clock e (ticks w)\<rparr>"

text \<open>Further frame conditions: no key leaves the session map, the session map is the
  same, no file is deleted, the keys of the map stay distinct.\<close>

definition keys_kept :: "world \<Rightarrow> world \<Rightarrow> bool" where
  "keys_kept w w' = (fst ` set (userSessions w) \<subseteq> fst ` set (userSessions w'))"

definition sessions_quiet :: "pstate \<Rightarrow> pstate \<Rightarrow> bool" where
  "sessions_quiet s s' = (userSessions (wld s') = userSessions (wld s))"

definition files_kept :: "world \<Rightarrow> world \<Rightarrow> bool" where
  "files_kept w w' = (files w \<subseteq> files w')"

definition keys_distinct_kept :: "world \<Rightarrow> world \<Rightarrow> bool" where
  "keys_distinct_kept w w' =
     (distinct (map fst (userSessions w)) \<longrightarrow> distinct (map fst (userSessions w')))"

text \<open>A postcondition of the runs of a computation that return: a relation between the
  state before and the state after.  \<open>reset_done\<close> is the effect of the last lines of
  \<open>processSessionScreenshots\<close>, \<open>identity_kept\<close> what the lines before them keep.\<close>

definition io_ensures :: "('s \<Rightarrow> 's \<Rightarrow> bool) \<Rightarrow> ('s, 'a) io \<Rightarrow> bool" where
  "io_ensures Q m = (\<forall>s a s'. m s = (Inr a, s') \<longrightarrow> Q s s')"

definition identity_kept :: "pstate \<Rightarrow> pstate \<Rightarrow> bool" where
  "identity_kept s s' =
     (userId (sess s') = userId (sess s) \<and> chatId (sess s') = chatId (sess s) \<and>
      ticks (wld s') = ticks (wld s))"

definition ticks_same :: "world \<Rightarrow> world \<Rightarrow> bool" where
  "ticks_same w w' = (ticks w' = ticks w)"

definition reset_done :: "env \<Rightarrow> pstate \<Rightarrow> pstate \<Rightarrow> bool" where
  "reset_done e s s' =
     (userId (sess s') = userId (sess s) \<and> chatId (sess s') = chatId (sess s) \<and>
      screenshots (sess s') = [] \<and> extractedTexts (sess s') = [] \<and>
      startTime (sess s') = clock e (Suc (ticks (wld s))) \<and>
      ticks (wld s') = ticks (wld s) + 2)"

section \<open>Example configurations\<close>

definition demo_env :: env where
  "demo_env =
     \<lparr>gemini_ocr = True, chatgpt_answer = True, session_timeout = 45,
      CHAT_IDS = {''4242''}, IMAGES_DIR = ''screenshots'',
      clock = (\<lambda>n. 1000 + int n), net_ok = (\<lambda>n. True), capture_ok = (\<lambda>t. True),
      ocr = (\<lambda>p. if p = ''b.png'' then ServiceError else Text (''text of '' @ p)),
      claude = (\<lambda>t. Some ''42''), unlink_denied = (\<lambda>p. p = ''locked.png'')\<rparr>"

definition boot :: world where
  "boot = \<lparr>userSessions = [], files = {}, outbox = [], gemini_log = [], claude_log = [],
            sends = 0, ticks = 0\<rparr>"

definition demo_msg :: "string \<Rightarrow> message" where
  "demo_msg t = \<lparr>msg_text = t, msg_chat = ''4242'', msg_from = ''7''\<rparr>"

definition stranger_msg :: "string \<Rightarrow> message" where
  "stranger_msg t = \<lparr>msg_text = t, msg_chat = ''666'', msg_from = ''13''\<rparr>"

definition clear_env :: env where
  "clear_env = demo_env\<lparr>ocr := (\<lambda>p. Text (''text of '' @ p))\<rparr>"


definition sparse_session :: session where
  "sparse_session =
     \<lparr>userId = ''7'', chatId = ''4242'',
      screenshots = [Some ''a.png'', None, Some ''b.png'', None, Some ''c.png''],
      extractedTexts = [], startTime = 0\<rparr>"

definition twin_session :: session where
  "twin_session =
     \<lparr>userId = ''7'', chatId = ''4242'',
      screenshots = [Some ''a.png'', None, Some ''a.png''],
      extractedTexts = [], startTime = 0\<rparr>"

definition idle_session :: session where
  "idle_session =
     \<lparr>userId = ''7'', chatId = ''4242'', screenshots = [], extractedTexts = [],
      startTime = 0\<rparr>"

definition late_env :: env where
  "late_env = demo_env\<lparr>clock := (\<lambda>n. 5000000 + int n)\<rparr>"

definition jump_env :: env where
  "jump_env = demo_env\<lparr>clock := (\<lambda>n. 1000 + 5000000 * int n)\<rparr>"

definition stale_session :: session where
  "stale_session =
     \<lparr>userId = ''7'', chatId = ''4242'',
      screenshots = [Some ''a.png'', None, Some ''locked.png''],
      extractedTexts = [], startTime = 1000\<rparr>"

definition recent_session :: session where
  "recent_session =
     \<lparr>userId = ''8'', chatId = ''4242'', screenshots = [Some ''c.png''],
      extractedTexts = [], startTime = 4000000\<rparr>"

definition stale_world :: world where
  "stale_world =
     boot\<lparr>userSessions := [(''7'', stale_session), (''8'', recent_session)],
          files := {''a.png'', ''locked.png'', ''c.png''}\<rparr>"

section \<open>Basic facts\<close>

lemma io_ret_apply: "io_ret x s = (Inr x, s)"
  by (simp add: io_ret_def)

lemma io_bind_apply:
  "io_bind m f s = (case m s of (Inl x, s') \<Rightarrow> (Inl x, s') | (Inr a, s') \<Rightarrow> f a s')"
  by (simp add: io_bind_def)

lemma io_catch_apply:
  "io_catch m h s = (case m s of (Inl x, s') \<Rightarrow> h x s' | (Inr a, s') \<Rightarrow> (Inr a, s'))"
  by (simp add: io_catch_def)

lemma io_total_apply: "io_total f s = (case f s of (a, s') \<Rightarrow> (Inr a, s'))"
  by (simp add: io_total_def)

lemma io_gets_apply: "io_gets f s = (Inr (f s), s)"
  by (simp add: io_gets_def)

lemma io_modify_apply: "io_modify f s = (Inr (), f s)"
  by (simp add: io_modify_def)

lemma in_world_apply: "in_world m s = (case m (wld s) of (r, w') \<Rightarrow> (r, s\<lparr>wld := w'\<rparr>))"
  by (simp add: in_world_def)

lemmas io_apply = io_ret_apply io_bind_apply io_catch_apply io_total_apply io_gets_apply
  io_modify_apply in_world_apply

lemma send_delivered:
  "\<forall>n. net_ok e n \<Longrightarrow>
   send e m w = (Inr (sends w), w\<lparr>outbox := outbox w @ [m], sends := Suc (sends w)\<rparr>)"
  by (simp add: send_def)

lemma batch_extract_eq:
  "batch_extract e p w = (extracted e p, w\<lparr>gemini_log := gemini_log w @ gemini_calls e p\<rparr>)"
  by (cases "ocr e p")
     (simp_all add: batch_extract_def extractTextFromImage_def uploadToGemini_def
        extracted_def gemini_calls_def)

subsection \<open>Substrings\<close>

lemma js_includes_infix: "s = pre @ sub @ post \<Longrightarrow> js_includes s sub"
proof (induction pre arbitrary: s)
  case Nil
  show ?case
  proof (cases s)
    case Nil
    with \<open>s = [] @ sub @ post\<close> show ?thesis by simp
  next
    case (Cons c cs)
    have "take (length sub) (sub @ post) = sub" by simp
    with Cons \<open>s = [] @ sub @ post\<close> show ?thesis by simp
  qed
next
  case (Cons a pre)
  then show ?case by simp
qed

lemma js_includes_iff: "js_includes s sub \<longleftrightarrow> (\<exists>pre post. s = pre @ sub @ post)"
proof
  assume "js_includes s sub"
  then show "\<exists>pre post. s = pre @ sub @ post"
  proof (induction s)
    case Nil
    then show ?case by simp
  next
    case (Cons c cs)
    show ?case
    proof (cases "take (length sub) (c # cs) = sub")
      case True
      then have "c # cs = [] @ sub @ drop (length sub) (c # cs)"
        by (metis append_Nil append_take_drop_id)
      then show ?thesis by blast
    next
      case False
      with Cons.prems have "js_includes cs sub" by simp
      then obtain pre post where "cs = pre @ sub @ post" using Cons.IH by blast
      then have "c # cs = (c # pre) @ sub @ post" by simp
      then show ?thesis by blast
    qed
  qed
next
  assume "\<exists>pre post. s = pre @ sub @ post"
  then show "js_includes s sub" using js_includes_infix by blast
qed

subsection \<open>Frame rules\<close>

lemma io_keepsD: "io_keeps R m \<Longrightarrow> R s (snd (m s))"
  by (simp add: io_keeps_def)

lemma io_keeps_ret: "preorder_on_states R \<Longrightarrow> io_keeps R (io_ret x)"
  by (simp add: io_keeps_def io_ret_def preorder_on_states_def)

lemma io_keeps_gets: "preorder_on_states R \<Longrightarrow> io_keeps R (io_gets f)"
  by (simp add: io_keeps_def io_gets_def preorder_on_states_def)

lemma io_keeps_bind:
  assumes "preorder_on_states R" and "io_keeps R m" and "\<And>a. io_keeps R (f a)"
  shows "io_keeps R (io_bind m f)"
proof -
  have "R s (snd (io_bind m f s))" for s
  proof (cases "m s")
    case (Pair r s')
    have step: "R s s'" using io_keepsD [OF assms(2), of s] Pair by simp
    show ?thesis
    proof (cases r)
      case (Inl x)
      with Pair step show ?thesis by (simp add: io_bind_def)
    next
      case (Inr a)
      have "R s' (snd (f a s'))" using assms(3) by (rule io_keepsD)
      with step assms(1) have "R s (snd (f a s'))"
        unfolding preorder_on_states_def by blast
      with Pair Inr show ?thesis by (simp add: io_bind_def)
    qed
  qed
  then show ?thesis by (simp add: io_keeps_def)
qed

lemma io_keeps_catch:
  assumes "preorder_on_states R" and "io_keeps R m" and "\<And>x. io_keeps R (h x)"
  shows "io_keeps R (io_catch m h)"
proof -
  have "R s (snd (io_catch m h s))" for s
  proof (cases "m s")
    case (Pair r s')
    have step: "R s s'" using io_keepsD [OF assms(2), of s] Pair by simp
    show ?thesis
    proof (cases r)
      case (Inr a)
      with Pair step show ?thesis by (simp add: io_catch_def)
    next
      case (Inl x)
      have "R s' (snd (h x s'))" using assms(3) by (rule io_keepsD)
      with step assms(1) have "R s (snd (h x s'))"
        unfolding preorder_on_states_def by blast
      with Pair Inl show ?thesis by (simp add: io_catch_def)
    qed
  qed
  then show ?thesis by (simp add: io_keeps_def)
qed

lemma io_keeps_if:
  "(c \<Longrightarrow> io_keeps R m) \<Longrightarrow> (\<not> c \<Longrightarrow> io_keeps R m') \<Longrightarrow> io_keeps R (if c then m else m')"
  by simp

lemma io_keeps_total: "(\<And>s. R s (snd (f s))) \<Longrightarrow> io_keeps R (io_total f)"
  by (simp add: io_keeps_def io_total_def split: prod.splits) (metis snd_conv)

lemma io_keeps_modify: "(\<And>s. R s (f s)) \<Longrightarrow> io_keeps R (io_modify f)"
  by (simp add: io_keeps_def io_modify_def)

lemma io_keeps_in_world:
  "io_keeps Q m \<Longrightarrow> (\<And>s w'. Q (wld s) w' \<Longrightarrow> R s (s\<lparr>wld := w'\<rparr>)) \<Longrightarrow>
   io_keeps R (in_world m)"
  by (simp add: io_keeps_def in_world_def split: prod.splits) (metis snd_conv)

lemma io_keeps_weaken:
  "io_keeps R m \<Longrightarrow> (\<And>s s'. R s s' \<Longrightarrow> Q s s') \<Longrightarrow> io_keeps Q m"
  by (simp add: io_keeps_def)

lemmas io_keeps_intros = io_keeps_bind io_keeps_catch io_keeps_if io_keeps_ret io_keeps_gets

subsection \<open>The single-shot flow never touches the session store\<close>

lemma same_sessions_pre: "preorder_on_states same_sessions"
  by (simp add: preorder_on_states_def same_sessions_def)

lemma send_same_sessions: "io_keeps same_sessions (send e m)"
  by (simp add: io_keeps_def same_sessions_def send_def)

lemma unlink_same_sessions: "io_keeps same_sessions (unlink e p)"
  by (simp add: io_keeps_def same_sessions_def unlink_def)

lemma takeScreenshot_same_sessions: "io_keeps same_sessions (takeScreenshot e)"
  by (simp add: io_keeps_def same_sessions_def takeScreenshot_def io_apply Date_now_def)

lemma extract_same_sessions: "same_sessions w (snd (extractTextFromImage e p w))"
  by (cases "ocr e p")
     (simp_all add: same_sessions_def extractTextFromImage_def uploadToGemini_def)

lemma answer_same_sessions: "same_sessions w (snd (getAnswerFromChatGPT e t w))"
  by (simp add: same_sessions_def getAnswerFromChatGPT_def split: option.splits)

lemma single_shot_same_sessions: "io_keeps same_sessions (single_shot e)"
  unfolding single_shot_def
  by (intro io_keeps_intros io_keeps_total same_sessions_pre send_same_sessions
        unlink_same_sessions takeScreenshot_same_sessions extract_same_sessions
        answer_same_sessions)

section \<open>Command router\<close>

text \<open>
  Claim C7.  A text message whose chat id is not in \<open>CHAT_IDS\<close> is dropped: the handler
  returns at once and leaves the whole state as it was, so nothing is sent (not even
  attempted) and the session map is the same before and after.
\<close>

theorem unauthorized_chat_is_dropped:
  assumes "msg_chat m \<notin> CHAT_IDS e"
  shows "handle_text e m w = (Inr (), w) \<and>
         outbox (snd (handle_text e m w)) = outbox w \<and>
         sends (snd (handle_text e m w)) = sends w \<and>
         userSessions (snd (handle_text e m w)) = userSessions w"
  using assms by (simp add: handle_text_def io_ret_def)

theorem unauthorized_chat_is_dropped_witness:
  "msg_chat (stranger_msg ''1'') \<notin> CHAT_IDS demo_env \<and>
   handle_text demo_env (stranger_msg ''1'') boot = (Inr (), boot) \<and>
   outbox (snd (handle_text demo_env (stranger_msg ''1'') boot)) = [] \<and>
   userSessions (snd (handle_text demo_env (stranger_msg ''1'') boot)) = []"
proof -
  have out: "msg_chat (stranger_msg ''1'') \<notin> CHAT_IDS demo_env"
    by (simp add: stranger_msg_def demo_env_def)
  from unauthorized_chat_is_dropped [OF out, of boot] out show ?thesis
    by (simp add: boot_def)
qed

text \<open>
  Claim C8.  For an authorised chat, a message whose lower-cased text contains \<open>ss\<close>
  anywhere runs the single-shot flow and nothing else: the handler is the single-shot flow
  on that message, the digit commands are not reached, and the session map is left as it
  was.  \<open>passport\<close> and \<open>Assess\<close> are such messages.
\<close>

theorem ss_anywhere_runs_single_shot:
  assumes "msg_chat m \<in> CHAT_IDS e"
    and "toLowerCase (msg_text m) = pre @ ''ss'' @ post"
  shows "handle_text e m w = single_shot e w \<and>
         userSessions (snd (handle_text e m w)) = userSessions w"
proof -
  have inc: "js_includes (toLowerCase (msg_text m)) ''ss''"
    using assms(2) by (rule js_includes_infix)
  with assms(1) have eq: "handle_text e m w = single_shot e w"
    by (simp add: handle_text_def)
  have "same_sessions w (snd (single_shot e w))"
    using single_shot_same_sessions by (rule io_keepsD)
  with eq show ?thesis by (simp add: same_sessions_def)
qed

theorem ss_anywhere_runs_single_shot_witness:
  "msg_chat (demo_msg ''Assess'') \<in> CHAT_IDS demo_env \<and>
   toLowerCase (msg_text (demo_msg ''Assess'')) = ''asse'' @ ''ss'' @ [] \<and>
   handle_text demo_env (demo_msg ''Assess'') boot = single_shot demo_env boot \<and>
   userSessions (snd (handle_text demo_env (demo_msg ''Assess'') boot)) = userSessions boot \<and>
   msg_chat (demo_msg ''passport'') \<in> CHAT_IDS demo_env \<and>
   toLowerCase (msg_text (demo_msg ''passport'')) = ''pa'' @ ''ss'' @ ''port'' \<and>
   handle_text demo_env (demo_msg ''passport'') boot = single_shot demo_env boot"
proof -
  have a1: "msg_chat (demo_msg ''Assess'') \<in> CHAT_IDS demo_env"
    and a2: "msg_chat (demo_msg ''passport'') \<in> CHAT_IDS demo_env"
    by (simp_all add: demo_msg_def demo_env_def)
  have l1: "toLowerCase (msg_text (demo_msg ''Assess'')) = ''asse'' @ ''ss'' @ []"
    and l2: "toLowerCase (msg_text (demo_msg ''passport'')) = ''pa'' @ ''ss'' @ ''port''"
    by (simp_all add: demo_msg_def toLowerCase_def lower_char_def)
  note t1 = ss_anywhere_runs_single_shot [OF a1 l1, of boot]
  note t2 = ss_anywhere_runs_single_shot [OF a2 l2, of boot]
  show ?thesis
    using a1 l1 conjunct1 [OF t1] conjunct2 [OF t1] a2 l2 conjunct1 [OF t2]
    by (intro conjI)
qed

section \<open>Batch pipeline\<close>

subsection \<open>One iteration of the loop, when every Telegram call succeeds\<close>

lemma photos_append: "photos (xs @ ys) = photos xs @ photos ys"
  by (induction xs rule: photos.induct) simp_all

lemmas item_defs = process_item_def try_item_def io_apply send_delivered batch_extract_eq
  unlink_def

lemma process_item_returns:
  assumes "\<forall>n. net_ok e n"
  shows "fst (process_item e tot i p s) = Inr ()"
  using assms by (simp add: item_defs)

lemma process_item_count:
  assumes "\<forall>n. net_ok e n"
  shows "processedCount (snd (process_item e tot i p s)) =
         processedCount s + (if truthy (extracted e p) then 1 else 0)"
  using assms by (simp add: item_defs)

lemma process_item_buffer:
  assumes "\<forall>n. net_ok e n"
  shows "allExtractedText (snd (process_item e tot i p s)) =
         allExtractedText s @
           (if truthy (extracted e p)
            then segment (screenshotNumber_of (screenshots (sess s)) p) (the (extracted e p))
            else [])"
  using assms by (simp add: item_defs)

lemma process_item_photos:
  assumes "\<forall>n. net_ok e n"
  shows "photos (outbox (wld (snd (process_item e tot i p s)))) =
         photos (outbox (wld s)) @
           [(p, Caption_batch (screenshotNumber_of (screenshots (sess s)) p))]"
  using assms by (simp add: item_defs photos_append)

lemma process_item_gemini:
  assumes "\<forall>n. net_ok e n"
  shows "gemini_log (wld (snd (process_item e tot i p s))) =
         gemini_log (wld s) @ gemini_calls e p"
  using assms by (simp add: item_defs)


subsection \<open>What the loop leaves alone, whatever the network does\<close>

lemma batch_frame_pre: "preorder_on_states batch_frame"
  by (simp add: preorder_on_states_def batch_frame_def)

lemma world_frame_lift: "world_frame (wld s) w' \<Longrightarrow> batch_frame s (s\<lparr>wld := w'\<rparr>)"
  by (simp add: batch_frame_def world_frame_def)

lemma send_world_frame: "io_keeps world_frame (send e m)"
  by (simp add: io_keeps_def world_frame_def send_def)

lemma unlink_world_frame: "io_keeps world_frame (unlink e p)"
  by (simp add: io_keeps_def world_frame_def unlink_def)

lemma batch_extract_world_frame: "io_keeps world_frame (io_total (batch_extract e p))"
  by (simp add: io_keeps_def world_frame_def batch_extract_eq io_total_def)

lemma process_item_frame: "io_keeps batch_frame (process_item e tot i p)"
  unfolding process_item_def try_item_def
  by (intro io_keeps_intros io_keeps_modify io_keeps_in_world [where Q = world_frame]
        batch_frame_pre send_world_frame unlink_world_frame batch_extract_world_frame
        world_frame_lift)
     (simp_all add: batch_frame_def)

lemma ocr_loop_frame: "batch_frame s (snd (ocr_loop e tot i ps s))"
proof (induction ps arbitrary: i s)
  case Nil
  show ?case by (simp add: batch_frame_def)
next
  case (Cons p ps)
  have one: "batch_frame s (snd (process_item e tot i p s))"
    using process_item_frame by (rule io_keepsD)
  show ?case
  proof (cases "process_item e tot i p s")
    case (Pair r s1)
    with one have b1: "batch_frame s s1" by simp
    show ?thesis
    proof (cases r)
      case (Inl x)
      with Pair b1 show ?thesis by simp
    next
      case (Inr u)
      have "batch_frame s1 (snd (ocr_loop e tot (Suc i) ps s1))" by (rule Cons.IH)
      with b1 have "batch_frame s (snd (ocr_loop e tot (Suc i) ps s1))"
        by (simp add: batch_frame_def)
      with Pair Inr show ?thesis by simp
    qed
  qed
qed

subsection \<open>The loop\<close>

lemma ocr_loop_step:
  assumes "\<forall>n. net_ok e n"
  shows "ocr_loop e tot i (p # ps) s =
         ocr_loop e tot (Suc i) ps (snd (process_item e tot i p s))"
proof (cases "process_item e tot i p s")
  case (Pair r s1)
  with process_item_returns [OF assms, of tot i p s] have "r = Inr ()" by simp
  with Pair show ?thesis by simp
qed

lemma ocr_loop_returns:
  assumes "\<forall>n. net_ok e n"
  shows "ocr_loop e tot i ps s = (Inr (), loop_end e tot i ps s)"
proof (induction ps arbitrary: i s)
  case Nil
  show ?case by (simp add: loop_end_def)
next
  case (Cons p ps)
  show ?case
    using Cons.IH [of "Suc i" "snd (process_item e tot i p s)"]
    by (simp only: ocr_loop_step [OF assms] loop_end_def snd_conv)
qed

lemma loop_end_Nil: "loop_end e tot i [] s = s"
  by (simp add: loop_end_def)

lemma loop_end_Cons:
  assumes "\<forall>n. net_ok e n"
  shows "loop_end e tot i (p # ps) s =
         loop_end e tot (Suc i) ps (snd (process_item e tot i p s))"
  by (simp only: loop_end_def ocr_loop_step [OF assms])

lemma loop_end_frame: "batch_frame s (loop_end e tot i ps s)"
  unfolding loop_end_def by (rule ocr_loop_frame)

lemma item_shots: "screenshots (sess (snd (process_item e tot i p s))) = screenshots (sess s)"
  using io_keepsD [OF process_item_frame [of e tot i p], of s] by (simp add: batch_frame_def)

lemma loop_count:
  assumes "\<forall>n. net_ok e n"
  shows "processedCount (loop_end e tot i ps s) = processedCount s + length (successful e ps)"
proof (induction ps arbitrary: i s)
  case Nil
  show ?case by (simp add: loop_end_Nil successful_def)
next
  case (Cons p ps)
  show ?case
    by (simp add: loop_end_Cons [OF assms] Cons.IH process_item_count [OF assms] successful_def)
qed

lemma loop_buffer:
  assumes "\<forall>n. net_ok e n"
  shows "allExtractedText (loop_end e tot i ps s) =
         allExtractedText s @ buffer_of e (screenshots (sess s)) ps"
proof (induction ps arbitrary: i s)
  case Nil
  show ?case by (simp add: loop_end_Nil buffer_of_def successful_def)
next
  case (Cons p ps)
  show ?case
    by (simp add: loop_end_Cons [OF assms] Cons.IH process_item_buffer [OF assms]
          item_shots buffer_of_def successful_def)
qed

lemma loop_photos:
  assumes "\<forall>n. net_ok e n"
  shows "photos (outbox (wld (loop_end e tot i ps s))) =
         photos (outbox (wld s)) @
           map (\<lambda>p. (p, Caption_batch (screenshotNumber_of (screenshots (sess s)) p))) ps"
proof (induction ps arbitrary: i s)
  case Nil
  show ?case by (simp add: loop_end_Nil)
next
  case (Cons p ps)
  show ?case
    by (simp add: loop_end_Cons [OF assms] Cons.IH process_item_photos [OF assms] item_shots)
qed

lemma loop_gemini:
  assumes "\<forall>n. net_ok e n"
  shows "gemini_log (wld (loop_end e tot i ps s)) =
         gemini_log (wld s) @ concat (map (gemini_calls e) ps)"
proof (induction ps arbitrary: i s)
  case Nil
  show ?case by (simp add: loop_end_Nil)
next
  case (Cons p ps)
  show ?case
    by (simp add: loop_end_Cons [OF assms] Cons.IH process_item_gemini [OF assms])
qed

subsection \<open>A whole run\<close>

lemma getAnswer_enabled:
  "chatgpt_answer e \<Longrightarrow>
   getAnswerFromChatGPT e t w = (answer_text e t, w\<lparr>claude_log := claude_log w @ [t]\<rparr>)"
  by (simp add: getAnswerFromChatGPT_def answer_text_def split: option.splits)

lemma loop_end_fields:
  "screenshots (sess (loop_end e tot i ps s)) = screenshots (sess s)"
  "startTime (sess (loop_end e tot i ps s)) = startTime (sess s)"
  "userId (sess (loop_end e tot i ps s)) = userId (sess s)"
  "chatId (sess (loop_end e tot i ps s)) = chatId (sess s)"
  "combinedResponse (loop_end e tot i ps s) = combinedResponse s"
  "claude_log (wld (loop_end e tot i ps s)) = claude_log (wld s)"
  "ticks (wld (loop_end e tot i ps s)) = ticks (wld s)"
  "userSessions (wld (loop_end e tot i ps s)) = userSessions (wld s)"
  using loop_end_frame [of s e tot i ps] by (simp_all add: batch_frame_def)

lemmas pipeline_defs = processSessionScreenshots_def pipeline_def answer_step_def finish_def
  start_state_def io_apply send_delivered ocr_loop_returns Date_now_def getAnswer_enabled
  loop_end_fields loop_count loop_buffer loop_photos loop_gemini photos_append

lemma run_result:
  assumes net: "\<forall>n. net_ok e n" and shots: "screenshots session \<noteq> []"
  shows "fst (processSessionScreenshots e session w) =
         Inr (Combined
           ((if answer_wanted e session then [AnswerPart (answer_text e (run_buffer e session))]
             else []) @
            [SummaryPart (length (filter_truthy (screenshots session)))
               (length (successful e (filter_truthy (screenshots session))))
               (int (length (filter_truthy (screenshots session))) -
                int (length (successful e (filter_truthy (screenshots session)))))
               (round_seconds (clock e (ticks w) - startTime session))]))"
  using net shots by (simp add: pipeline_defs run_buffer_def answer_wanted_def)


lemma run_ticks:
  assumes net: "\<forall>n. net_ok e n" and shots: "screenshots session \<noteq> []"
  shows "ticks (snd (snd (processSessionScreenshots e session w))) = ticks w + 2"
  using net shots by (simp add: pipeline_defs)

lemma run_gemini_log:
  assumes net: "\<forall>n. net_ok e n" and shots: "screenshots session \<noteq> []"
  shows "gemini_log (snd (snd (processSessionScreenshots e session w))) =
         gemini_log w @ concat (map (gemini_calls e) (filter_truthy (screenshots session)))"
  using net shots by (simp add: pipeline_defs)

lemma run_photos:
  assumes net: "\<forall>n. net_ok e n" and shots: "screenshots session \<noteq> []"
  shows "photos (outbox (snd (snd (processSessionScreenshots e session w)))) =
         photos (outbox w) @
           map (\<lambda>p. (p, Caption_batch (screenshotNumber_of (screenshots session) p)))
             (filter_truthy (screenshots session))"
  using net shots by (simp add: pipeline_defs)


subsection \<open>Slot numbers\<close>

lemma filter_truthy_mem:
  "p \<in> set (filter_truthy shots) \<longleftrightarrow> p \<noteq> [] \<and> Some p \<in> set shots"
proof (induction shots)
  case Nil
  show ?case by (simp add: filter_truthy_def)
next
  case (Cons v vs)
  then show ?case by (cases v) (auto simp: filter_truthy_def truthy_def)
qed

lemma slots_from_paths: "map snd (slots_from n shots) = filter_truthy shots"
  by (induction shots arbitrary: n) (simp_all add: filter_truthy_def)

lemma slots_from_lower: "(m, p) \<in> set (slots_from n shots) \<Longrightarrow> n \<le> m"
proof (induction shots arbitrary: n)
  case Nil
  then show ?case by simp
next
  case (Cons v vs)
  then show ?case by (fastforce split: if_splits)
qed

lemma slots_from_truthy: "(m, p) \<in> set (slots_from n shots) \<Longrightarrow> p \<in> set (filter_truthy shots)"
  using slots_from_paths [of n shots] by (metis image_eqI set_map snd_conv)

lemma findIndex_slot:
  assumes "(m, p) \<in> set (slots_from n shots)" and "distinct (filter_truthy shots)"
  shows "findIndex (\<lambda>s. s = Some p) shots = int m - int n"
  using assms
proof (induction shots arbitrary: n)
  case Nil
  then show ?case by simp
next
  case (Cons v vs)
  show ?case
  proof (cases "v = Some p")
    case True
    have "p \<noteq> []"
      using slots_from_truthy [OF Cons.prems(1)] by (simp add: filter_truthy_mem)
    with True have tv: "truthy v" by (simp add: truthy_def)
    have "(m, p) \<notin> set (slots_from (Suc n) vs)"
    proof
      assume "(m, p) \<in> set (slots_from (Suc n) vs)"
      then have "p \<in> set (filter_truthy vs)" by (rule slots_from_truthy)
      with Cons.prems(2) True tv show False by (simp add: filter_truthy_def)
    qed
    with Cons.prems(1) True tv have "m = n" by simp
    with True show ?thesis by simp
  next
    case False
    have tail: "(m, p) \<in> set (slots_from (Suc n) vs)"
      using Cons.prems(1) False by (auto simp: truthy_def split: if_splits option.splits)
    have d: "distinct (filter_truthy vs)"
      using Cons.prems(2) by (simp add: filter_truthy_def split: if_splits)
    have ih: "findIndex (\<lambda>s. s = Some p) vs = int m - int (Suc n)"
      using Cons.IH [OF tail d] .
    have "Suc n \<le> m" using tail by (rule slots_from_lower)
    with ih False show ?thesis by (simp add: Let_def)
  qed
qed

lemma slot_number:
  assumes "(m, p) \<in> set (occupied_slots shots)" and "distinct (filter_truthy shots)"
  shows "screenshotNumber_of shots p = int m"
  using findIndex_slot [of m p 1 shots] assms
  by (simp add: occupied_slots_def screenshotNumber_of_def)

lemma occupied_paths: "map snd (occupied_slots shots) = filter_truthy shots"
  by (simp add: occupied_slots_def slots_from_paths)

lemma pipeline_from_after_loop:
  assumes "\<forall>n. net_ok e n"
  shows "pipeline e (length (filter_truthy (screenshots session)))
           (filter_truthy (screenshots session)) (start_state session w) =
         io_bind (io_gets processedCount) (\<lambda>done.
         io_bind (in_world (send e (Reply (OCRComplete done
                    (length (filter_truthy (screenshots session))))))) (\<lambda>_.
         io_bind (answer_step e) (\<lambda>_.
         finish e (length (filter_truthy (screenshots session))))))
           (after_loop e session w)"
  using assms
  by (simp add: pipeline_def after_loop_def io_bind_apply in_world_apply send_delivered
        ocr_loop_returns)

lemma after_loop_buffer:
  assumes "\<forall>n. net_ok e n"
  shows "allExtractedText (after_loop e session w) = run_buffer e session"
  using assms
  by (simp add: after_loop_def loop_buffer in_world_apply send_delivered start_state_def
        run_buffer_def)

lemma after_loop_count:
  assumes "\<forall>n. net_ok e n"
  shows "processedCount (after_loop e session w) =
         length (successful e (filter_truthy (screenshots session)))"
  using assms
  by (simp add: after_loop_def loop_count in_world_apply send_delivered start_state_def)

subsection \<open>Sparse slots\<close>

text \<open>
  Claim C1, as amended.  Take a session whose occupied slots are exactly 1, 3 and 5, holding
  three different files, and let every Telegram call succeed.  Then one run of
  \<open>processSessionScreenshots\<close> sends exactly three photos, for slots 1, 3 and 5 in this
  order, captioned with the slot numbers 1, 3 and 5, and calls the extraction service for
  these three files in this order; and the buffer \<open>allExtractedText\<close>
  that its loop builds is, in this order, one segment per screenshot whose extraction
  returned a non-empty text, tagged with the slot number 1, 3 or 5 of that screenshot (not
  with its position in the loop).  When the three extractions succeed these are exactly
  the three segments tagged 1, 3 and 5.
\<close>

theorem sparse_slots_keep_their_numbers:
  assumes net: "\<forall>n. net_ok e n"
    and occ: "occupied_slots (screenshots session) = [(1, a), (3, b), (5, c)]"
    and dist: "distinct [a, b, c]"
  shows "photos (outbox (snd (snd (processSessionScreenshots e session w)))) =
           photos (outbox w) @
             [(a, Caption_batch 1), (b, Caption_batch 3), (c, Caption_batch 5)] \<and>
         gemini_log (snd (snd (processSessionScreenshots e session w))) =
           gemini_log w @ gemini_calls e a @ gemini_calls e b @ gemini_calls e c \<and>
         allExtractedText (after_loop e session w) =
           (if truthy (extracted e a) then segment 1 (the (extracted e a)) else []) @
           (if truthy (extracted e b) then segment 3 (the (extracted e b)) else []) @
           (if truthy (extracted e c) then segment 5 (the (extracted e c)) else [])"
proof -
  have valid: "filter_truthy (screenshots session) = [a, b, c]"
    using occupied_paths [of "screenshots session"] occ by simp
  then have ne: "screenshots session \<noteq> []" by (auto simp: filter_truthy_def)
  have d: "distinct (filter_truthy (screenshots session))" using valid dist by simp
  have na: "screenshotNumber_of (screenshots session) a = 1"
    and nb: "screenshotNumber_of (screenshots session) b = 3"
    and nc: "screenshotNumber_of (screenshots session) c = 5"
    using slot_number [OF _ d, of 1 a] slot_number [OF _ d, of 3 b] slot_number [OF _ d, of 5 c]
      occ by simp_all
  have p: "photos (outbox (snd (snd (processSessionScreenshots e session w)))) =
           photos (outbox w) @
             [(a, Caption_batch 1), (b, Caption_batch 3), (c, Caption_batch 5)]"
    by (simp add: run_photos [OF net ne] valid na nb nc)
  have b: "allExtractedText (after_loop e session w) =
           (if truthy (extracted e a) then segment 1 (the (extracted e a)) else []) @
           (if truthy (extracted e b) then segment 3 (the (extracted e b)) else []) @
           (if truthy (extracted e c) then segment 5 (the (extracted e c)) else [])"
    by (simp add: after_loop_buffer [OF net] run_buffer_def buffer_of_def successful_def
          valid na nb nc)
  have g: "gemini_log (snd (snd (processSessionScreenshots e session w))) =
           gemini_log w @ gemini_calls e a @ gemini_calls e b @ gemini_calls e c"
    by (simp add: run_gemini_log [OF net ne] valid)
  from p g b show ?thesis by simp
qed

theorem sparse_slots_keep_their_numbers_witness:
  "(\<forall>n. net_ok clear_env n) \<and>
   occupied_slots (screenshots sparse_session) = [(1, ''a.png''), (3, ''b.png''), (5, ''c.png'')] \<and>
   distinct [''a.png'', ''b.png'', ''c.png''] \<and>
   photos (outbox (snd (snd (processSessionScreenshots clear_env sparse_session boot)))) =
     [(''a.png'', Caption_batch 1), (''b.png'', Caption_batch 3), (''c.png'', Caption_batch 5)] \<and>
   gemini_log (snd (snd (processSessionScreenshots clear_env sparse_session boot))) =
     [Upload ''a.png'', OcrPrompt ''a.png'', Upload ''b.png'', OcrPrompt ''b.png'',
      Upload ''c.png'', OcrPrompt ''c.png''] \<and>
   allExtractedText (after_loop clear_env sparse_session boot) =
     segment 1 ''text of a.png'' @ segment 3 ''text of b.png'' @ segment 5 ''text of c.png''"
proof -
  have net: "\<forall>n. net_ok clear_env n" by (simp add: clear_env_def demo_env_def)
  have occ: "occupied_slots (screenshots sparse_session) =
             [(1, ''a.png''), (3, ''b.png''), (5, ''c.png'')]"
    by (simp add: occupied_slots_def sparse_session_def truthy_def)
  have dist: "distinct [''a.png'', ''b.png'', ''c.png'']" by simp
  have ex: "extracted clear_env ''a.png'' = Some ''text of a.png''"
    "extracted clear_env ''b.png'' = Some ''text of b.png''"
    "extracted clear_env ''c.png'' = Some ''text of c.png''"
    by (simp_all add: extracted_def clear_env_def demo_env_def)
  have gc: "gemini_calls clear_env ''a.png'' = [Upload ''a.png'', OcrPrompt ''a.png'']"
    "gemini_calls clear_env ''b.png'' = [Upload ''b.png'', OcrPrompt ''b.png'']"
    "gemini_calls clear_env ''c.png'' = [Upload ''c.png'', OcrPrompt ''c.png'']"
    by (simp_all add: gemini_calls_def clear_env_def demo_env_def)
  have "photos (outbox boot) = []" "gemini_log boot = []" by (simp_all add: boot_def)
  with sparse_slots_keep_their_numbers [OF net occ dist, of boot] net occ dist ex gc
  show ?thesis by (simp add: truthy_def)
qed

text \<open>
  The claim as it was stated fails when an extraction fails: with the same three slots and
  the extraction of slot 3 failing, the loop counts two successes and the buffer holds two
  segments, tagged 1 and 5.
\<close>

theorem sparse_slots_failed_extraction_counterexample:
  "occupied_slots (screenshots sparse_session) = [(1, ''a.png''), (3, ''b.png''), (5, ''c.png'')] \<and>
   extracted demo_env ''b.png'' = None \<and>
   processedCount (after_loop demo_env sparse_session boot) = 2 \<and>
   allExtractedText (after_loop demo_env sparse_session boot) =
     segment 1 ''text of a.png'' @ segment 5 ''text of c.png''"
proof -
  have net: "\<forall>n. net_ok demo_env n" by (simp add: demo_env_def)
  have occ: "occupied_slots (screenshots sparse_session) =
             [(1, ''a.png''), (3, ''b.png''), (5, ''c.png'')]"
    by (simp add: occupied_slots_def sparse_session_def truthy_def)
  have ex: "extracted demo_env ''a.png'' = Some ''text of a.png''"
    "extracted demo_env ''b.png'' = None"
    "extracted demo_env ''c.png'' = Some ''text of c.png''"
    by (simp_all add: extracted_def demo_env_def)
  have valid: "filter_truthy (screenshots sparse_session) = [''a.png'', ''b.png'', ''c.png'']"
    by (simp add: filter_truthy_def sparse_session_def truthy_def)
  have num: "screenshotNumber_of (screenshots sparse_session) ''a.png'' = 1"
    "screenshotNumber_of (screenshots sparse_session) ''c.png'' = 5"
    by (simp_all add: screenshotNumber_of_def sparse_session_def)
  have cnt: "processedCount (after_loop demo_env sparse_session boot) = 2"
    by (simp add: after_loop_count [OF net] valid successful_def ex truthy_def)
  have buf: "allExtractedText (after_loop demo_env sparse_session boot) =
             segment 1 ''text of a.png'' @ segment 5 ''text of c.png''"
    by (simp add: after_loop_buffer [OF net] run_buffer_def buffer_of_def successful_def
          valid ex num truthy_def)
  from occ ex(2) cnt buf show ?thesis by simp
qed

text \<open>
  The slot number is found again by comparing values (\<open>findIndex\<close>), so two slots that
  hold the same path get the number of the first: slots 1 and 3 with one path are both
  captioned 1.  The theorem above leaves this case out.
\<close>

lemma equal_paths_share_the_first_number:
  "filter_truthy (screenshots twin_session) = [''a.png'', ''a.png''] \<and>
   photos (outbox (snd (snd (processSessionScreenshots demo_env twin_session boot)))) =
     [(''a.png'', Caption_batch 1), (''a.png'', Caption_batch 1)]"
proof -
  have net: "\<forall>n. net_ok demo_env n" by (simp add: demo_env_def)
  have ne: "screenshots twin_session \<noteq> []" by (simp add: twin_session_def)
  have valid: "filter_truthy (screenshots twin_session) = [''a.png'', ''a.png'']"
    by (simp add: filter_truthy_def twin_session_def truthy_def)
  have num: "screenshotNumber_of (screenshots twin_session) ''a.png'' = 1"
    by (simp add: screenshotNumber_of_def twin_session_def)
  have "photos (outbox boot) = []" by (simp add: boot_def)
  with run_photos [OF net ne, of boot] valid num show ?thesis by simp
qed

subsection \<open>Facts about the example configurations\<close>

lemma sparse_facts:
  "screenshots sparse_session \<noteq> []"
  "filter_truthy (screenshots sparse_session) = [''a.png'', ''b.png'', ''c.png'']"
  "screenshotNumber_of (screenshots sparse_session) ''a.png'' = 1"
  "screenshotNumber_of (screenshots sparse_session) ''b.png'' = 3"
  "screenshotNumber_of (screenshots sparse_session) ''c.png'' = 5"
  "startTime sparse_session = 0"
  by (simp_all add: sparse_session_def filter_truthy_def truthy_def screenshotNumber_of_def)


lemma demo_facts:
  "\<forall>n. net_ok demo_env n" "gemini_ocr demo_env" "chatgpt_answer demo_env"
  "clock demo_env n = 1000 + int n" "claude demo_env t = Some ''42''"
  by (simp_all add: demo_env_def)

lemma boot_facts:
  "ticks boot = 0" "claude_log boot = []" "gemini_log boot = []" "outbox boot = []"
  "userSessions boot = []" "files boot = {}" "sends boot = 0"
  by (simp_all add: boot_def)

subsection \<open>Partial failure\<close>



subsection \<open>Extraction disabled\<close>









lemma ocr_loop_keeps:
  assumes pre: "preorder_on_states R"
    and step: "\<And>i p. io_keeps R (process_item e tot i p)"
  shows "io_keeps R (ocr_loop e tot i ps)"
proof -
  have "R s (snd (ocr_loop e tot i ps s))" for s
  proof (induction ps arbitrary: i s)
    case Nil
    show ?case using pre by (simp add: preorder_on_states_def)
  next
    case (Cons p ps)
    have one: "R s (snd (process_item e tot i p s))" using step by (rule io_keepsD)
    show ?case
    proof (cases "process_item e tot i p s")
      case (Pair r s1)
      with one have b1: "R s s1" by simp
      show ?thesis
      proof (cases r)
        case (Inl x)
        with Pair b1 show ?thesis by simp
      next
        case (Inr u)
        have "R s1 (snd (ocr_loop e tot (Suc i) ps s1))" by (rule Cons.IH)
        with b1 pre have "R s (snd (ocr_loop e tot (Suc i) ps s1))"
          unfolding preorder_on_states_def by blast
        with Pair Inr show ?thesis by simp
      qed
    qed
  qed
  then show ?thesis by (simp add: io_keeps_def)
qed














subsection \<open>Reset at the end of a run\<close>

lemma io_ensuresD: "io_ensures Q m \<Longrightarrow> m s = (Inr a, s') \<Longrightarrow> Q s s'"
  by (simp add: io_ensures_def)

lemma io_ensures_bind:
  assumes keeps: "io_keeps R m" and rest: "\<And>a. io_ensures Q (f a)"
    and comp: "\<And>s s' s''. R s s' \<Longrightarrow> Q s' s'' \<Longrightarrow> Q' s s''"
  shows "io_ensures Q' (io_bind m f)"
proof -
  have "Q' s s''" if run: "io_bind m f s = (Inr b, s'')" for s b s''
  proof (cases "m s")
    case (Pair r s')
    have step: "R s s'" using io_keepsD [OF keeps, of s] Pair by simp
    show ?thesis
    proof (cases r)
      case (Inl x)
      with Pair run show ?thesis by (simp add: io_bind_def)
    next
      case (Inr a)
      with Pair run have "f a s' = (Inr b, s'')" by (simp add: io_bind_def)
      then have "Q s' s''" using rest by (rule io_ensuresD [rotated])
      with step show ?thesis by (rule comp)
    qed
  qed
  then show ?thesis by (simp add: io_ensures_def)
qed

lemma identity_kept_pre: "preorder_on_states identity_kept"
  by (simp add: preorder_on_states_def identity_kept_def)

lemma ticks_same_lift: "ticks_same (wld s) w' \<Longrightarrow> identity_kept s (s\<lparr>wld := w'\<rparr>)"
  by (simp add: identity_kept_def ticks_same_def)

lemma send_ticks_same: "io_keeps ticks_same (send e m)"
  by (simp add: io_keeps_def ticks_same_def send_def)

lemma answer_ticks_same: "io_keeps ticks_same (io_total (getAnswerFromChatGPT e t))"
  by (simp add: io_keeps_def ticks_same_def getAnswerFromChatGPT_def io_total_def
        split: option.splits)

lemma process_item_identity: "io_keeps identity_kept (process_item e tot i p)"
  using process_item_frame
  by (rule io_keeps_weaken) (simp add: batch_frame_def identity_kept_def)

lemmas identity_intros = io_keeps_intros io_keeps_modify
  io_keeps_in_world [where Q = ticks_same] identity_kept_pre send_ticks_same
  answer_ticks_same ticks_same_lift

lemma answer_step_identity: "io_keeps identity_kept (answer_step e)"
  unfolding answer_step_def
  by (intro identity_intros) (simp_all add: identity_kept_def)

lemma finish_ensures_reset: "io_ensures (reset_done e) (finish e tot)"
  by (simp add: io_ensures_def finish_def io_apply Date_now_def reset_done_def)

lemma identity_then_reset: "identity_kept s s' \<Longrightarrow> reset_done e s' s'' \<Longrightarrow> reset_done e s s''"
  by (simp add: identity_kept_def reset_done_def)

lemma pipeline_ensures_reset: "io_ensures (reset_done e) (pipeline e tot ps)"
  unfolding pipeline_def
  by (intro io_ensures_bind [where R = identity_kept and Q = "reset_done e",
          OF _ _ identity_then_reset]
        finish_ensures_reset identity_intros ocr_loop_keeps
        process_item_identity answer_step_identity)

lemma returned_run_session:
  assumes ret: "fst (processSessionScreenshots e session w) = Inr r"
    and shots: "screenshots session \<noteq> []"
  shows "fst (snd (processSessionScreenshots e session w)) =
           session\<lparr>screenshots := [], extractedTexts := [],
                   startTime := clock e (Suc (ticks w))\<rparr> \<and>
         ticks (snd (snd (processSessionScreenshots e session w))) = ticks w + 2"
proof -
  let ?n = "length (filter_truthy (screenshots session))"
  obtain x s' where run: "pipeline e ?n (filter_truthy (screenshots session))
                            (start_state session w) = (x, s')"
    by (cases "pipeline e ?n (filter_truthy (screenshots session)) (start_state session w)")
  with ret shots have x: "x = Inr r" by (simp add: processSessionScreenshots_def)
  have "reset_done e (start_state session w) s'"
    using pipeline_ensures_reset run [unfolded x] by (rule io_ensuresD)
  then have f: "userId (sess s') = userId session" "chatId (sess s') = chatId session"
    "screenshots (sess s') = []" "extractedTexts (sess s') = []"
    "startTime (sess s') = clock e (Suc (ticks w))" "ticks (wld s') = ticks w + 2"
    by (simp_all add: reset_done_def start_state_def)
  have "sess s' = session\<lparr>screenshots := [], extractedTexts := [],
                   startTime := clock e (Suc (ticks w))\<rparr>"
    by (rule session.equality) (simp_all add: f)
  with f(6) run shots show ?thesis by (simp add: processSessionScreenshots_def)
qed

text \<open>
  Claim C3, as amended.  A run on a session whose \<open>screenshots\<close> array is empty returns
  "No screenshots to process." at once and changes nothing: \<open>startTime\<close> is not
  refreshed.  Every run on a session whose \<open>screenshots\<close> array is not empty that returns,
  whether the extractions succeed or fail, leaves the session with empty \<open>screenshots\<close>
  and \<open>extractedTexts\<close> and with \<open>startTime\<close> set to the last reading of the clock
  that the run takes.  In both cases a second run right after the first returns
  "No screenshots to process." and changes nothing.  A run returns whenever every Telegram
  call succeeds.
\<close>

theorem completed_run_resets_the_session:
  "(screenshots session = [] \<longrightarrow>
      processSessionScreenshots e session w = (Inr NoScreenshotsToProcess, session, w)) \<and>
   (screenshots session \<noteq> [] \<and> fst (processSessionScreenshots e session w) = Inr r \<longrightarrow>
      fst (snd (processSessionScreenshots e session w)) =
        session\<lparr>screenshots := [], extractedTexts := [],
                startTime := clock e (Suc (ticks w))\<rparr> \<and>
      ticks (snd (snd (processSessionScreenshots e session w))) = ticks w + 2) \<and>
   (fst (processSessionScreenshots e session w) = Inr r \<longrightarrow>
      processSessionScreenshots e (fst (snd (processSessionScreenshots e session w)))
          (snd (snd (processSessionScreenshots e session w))) =
        (Inr NoScreenshotsToProcess, fst (snd (processSessionScreenshots e session w)),
         snd (snd (processSessionScreenshots e session w)))) \<and>
   ((\<forall>n. net_ok e n) \<longrightarrow> (\<exists>r'. fst (processSessionScreenshots e session w) = Inr r'))"
proof -
  let ?run = "processSessionScreenshots e session w"
  have empty: "?run = (Inr NoScreenshotsToProcess, session, w)" if "screenshots session = []"
    using that by (simp add: processSessionScreenshots_def)
  have again: "processSessionScreenshots e (fst (snd ?run)) (snd (snd ?run)) =
        (Inr NoScreenshotsToProcess, fst (snd ?run), snd (snd ?run))"
    if "fst ?run = Inr r"
  proof (cases "screenshots session = []")
    case True
    then show ?thesis by (simp add: processSessionScreenshots_def)
  next
    case False
    have "screenshots (fst (snd ?run)) = []"
      using returned_run_session [OF that False] by simp
    then show ?thesis by (simp add: processSessionScreenshots_def)
  qed
  have returns: "\<exists>r'. fst ?run = Inr r'" if "\<forall>n. net_ok e n"
  proof (cases "screenshots session = []")
    case True
    then show ?thesis by (simp add: processSessionScreenshots_def)
  next
    case False
    show ?thesis using run_result [OF that False, of w] by simp
  qed
  from empty returned_run_session again returns show ?thesis by blast
qed

theorem completed_run_resets_the_session_witness:
  "(\<forall>n. net_ok demo_env n) \<and> screenshots sparse_session \<noteq> [] \<and>
   (\<exists>r. fst (processSessionScreenshots demo_env sparse_session boot) = Inr r) \<and>
   fst (snd (processSessionScreenshots demo_env sparse_session boot)) =
     sparse_session\<lparr>screenshots := [], extractedTexts := [], startTime := 1001\<rparr> \<and>
   ticks (snd (snd (processSessionScreenshots demo_env sparse_session boot))) = 2 \<and>
   processSessionScreenshots demo_env
       (fst (snd (processSessionScreenshots demo_env sparse_session boot)))
       (snd (snd (processSessionScreenshots demo_env sparse_session boot))) =
     (Inr NoScreenshotsToProcess,
      fst (snd (processSessionScreenshots demo_env sparse_session boot)),
      snd (snd (processSessionScreenshots demo_env sparse_session boot))) \<and>
   screenshots idle_session = [] \<and>
   processSessionScreenshots demo_env idle_session boot =
     (Inr NoScreenshotsToProcess, idle_session, boot)"
proof -
  let ?r = "processSessionScreenshots demo_env sparse_session boot"
  have idle: "screenshots idle_session = []" by (simp add: idle_session_def)
  have "\<exists>r. fst ?r = Inr r"
    using completed_run_resets_the_session [of sparse_session demo_env boot] demo_facts(1)
    by blast
  then obtain r where c1: "fst ?r = Inr r" ..
  note t = completed_run_resets_the_session [of sparse_session demo_env boot r]
  note u = completed_run_resets_the_session [of idle_session demo_env boot r]
  have "fst (snd ?r) = sparse_session\<lparr>screenshots := [], extractedTexts := [],
          startTime := clock demo_env (Suc (ticks boot))\<rparr>"
    using t sparse_facts(1) c1 by blast
  then have c2: "fst (snd ?r) =
      sparse_session\<lparr>screenshots := [], extractedTexts := [], startTime := 1001\<rparr>"
    by (simp add: boot_facts demo_facts(4))
  have "ticks (snd (snd ?r)) = ticks boot + 2" using t sparse_facts(1) c1 by blast
  then have c3: "ticks (snd (snd ?r)) = 2" by (simp add: boot_facts)
  have c4: "processSessionScreenshots demo_env (fst (snd ?r)) (snd (snd ?r)) =
      (Inr NoScreenshotsToProcess, fst (snd ?r), snd (snd ?r))"
    using t c1 by blast
  have c5: "processSessionScreenshots demo_env idle_session boot =
      (Inr NoScreenshotsToProcess, idle_session, boot)"
    using u idle by blast
  have c1': "\<exists>r. fst ?r = Inr r" using c1 by blast
  show ?thesis
    using demo_facts(1) sparse_facts(1) c1' c2 c3 c4 idle c5 by (intro conjI)
qed

text \<open>
  The claim as it was stated fails for the empty session: the run returns before the reset,
  so \<open>startTime\<close> keeps its old value (here 0) although the clock reads 1000, and the
  clock is not even read.
\<close>

theorem empty_run_keeps_startTime_counterexample:
  "screenshots idle_session = [] \<and> extractedTexts idle_session = [] \<and>
   fst (processSessionScreenshots demo_env idle_session boot) = Inr NoScreenshotsToProcess \<and>
   startTime (fst (snd (processSessionScreenshots demo_env idle_session boot))) = 0 \<and>
   ticks (snd (snd (processSessionScreenshots demo_env idle_session boot))) = ticks boot \<and>
   clock demo_env (ticks boot) = 1000"
  by (simp add: processSessionScreenshots_def idle_session_def demo_env_def boot_def)

text \<open>
  A run does not return when a Telegram call outside the \<open>try\<close> blocks fails, for
  instance the first one; the session is then left as it was, without the reset.
\<close>

lemma first_reply_failure_leaves_the_run:
  assumes "\<not> net_ok e (sends w)" and "screenshots session \<noteq> []"
  shows "processSessionScreenshots e session w =
         (Inl NetworkError, session, w\<lparr>sends := Suc (sends w)\<rparr>)"
  using assms
  by (simp add: processSessionScreenshots_def pipeline_def io_apply send_def start_state_def)

section \<open>Expiry sweep\<close>

lemma release_files:
  "files (release e p w) = files w - (if unlink_denied e p then {} else {p})"
  by (auto simp: release_def unlink_def)

lemma release_sessions: "userSessions (release e p w) = userSessions w"
  by (simp add: release_def unlink_def)

lemma fold_release_files:
  "files (fold (release e) ps w) = files w - {p \<in> set ps. \<not> unlink_denied e p}"
proof (induction ps arbitrary: w)
  case Nil
  show ?case by simp
next
  case (Cons p ps)
  show ?case by (auto simp: Cons.IH release_files)
qed

lemma fold_release_sessions: "userSessions (fold (release e) ps w) = userSessions w"
  by (induction ps arbitrary: w) (simp_all add: release_sessions)

lemma delete_as_filter: "AList.delete k xs = filter (\<lambda>x. fst x \<noteq> k) xs"
  by (induction xs) (simp_all add: AList.delete_simps)

lemma sweep_entry_sessions:
  "userSessions (sweep_entry e now entry w) =
     (if expired e now (snd entry) then filter (\<lambda>x. fst x \<noteq> fst entry) (userSessions w)
      else userSessions w)"
  by (simp add: sweep_entry_def expired_def Let_def fold_release_sessions delete_as_filter)

lemma sweep_entry_files:
  "files (sweep_entry e now entry w) =
     files w - {p. \<not> unlink_denied e p \<and> expired e now (snd entry) \<and>
                  p \<in> set (present (screenshots (snd entry)))}"
  by (auto simp: sweep_entry_def expired_def Let_def fold_release_files)

lemma fold_sweep_sessions:
  "userSessions (fold (sweep_entry e now) es v) =
     filter (\<lambda>x. \<forall>y \<in> set es. expired e now (snd y) \<longrightarrow> fst x \<noteq> fst y) (userSessions v)"
proof (induction es arbitrary: v)
  case Nil
  show ?case by simp
next
  case (Cons y es)
  show ?case by (auto simp: Cons.IH sweep_entry_sessions intro: filter_cong)
qed

lemma fold_sweep_files:
  "files (fold (sweep_entry e now) es v) =
     files v - {p. \<not> unlink_denied e p \<and>
                  (\<exists>y \<in> set es. expired e now (snd y) \<and> p \<in> set (present (screenshots (snd y))))}"
proof (induction es arbitrary: v)
  case Nil
  show ?case by simp
next
  case (Cons y es)
  show ?case by (auto simp: Cons.IH sweep_entry_files)
qed

lemma same_key_same_entry:
  assumes "distinct (map fst es)" and "x \<in> set es" and "y \<in> set es" and "fst x = fst y"
  shows "x = y"
  using assms by (metis eq_key_imp_eq_value prod.collapse)

lemma cleanup_sessions:
  assumes "distinct (map fst (userSessions w))"
  shows "userSessions (cleanupSessions e w) =
         filter (\<lambda>entry. \<not> expired e (clock e (ticks w)) (snd entry)) (userSessions w)"
proof -
  have "filter (\<lambda>x. \<forall>y \<in> set (userSessions w).
                  expired e (clock e (ticks w)) (snd y) \<longrightarrow> fst x \<noteq> fst y) (userSessions w) =
        filter (\<lambda>entry. \<not> expired e (clock e (ticks w)) (snd entry)) (userSessions w)"
    using same_key_same_entry [OF assms] by (intro filter_cong) auto
  then show ?thesis
    by (simp add: cleanupSessions_def Date_now_def fold_sweep_sessions)
qed

lemma cleanup_files:
  "files (cleanupSessions e w) =
     files w - {p. \<not> unlink_denied e p \<and>
                  (\<exists>entry \<in> set (userSessions w). expired e (clock e (ticks w)) (snd entry) \<and>
                     p \<in> set (present (screenshots (snd entry))))}"
  by (simp add: cleanupSessions_def Date_now_def fold_sweep_files)

text \<open>
  Claim C4, as amended.  \<open>userSessions\<close> is a map, so its keys are distinct.  One sweep
  issues an unlink for every element present in the \<open>screenshots\<close> array of every
  session whose age exceeds the timeout, and then removes that session, whether or not the
  unlinks succeed.  After the sweep exactly the sessions whose age does not exceed the
  timeout are left, unchanged and in their order, and the files that are gone are exactly
  the artifacts of the expired sessions whose unlink is not refused.  A failing unlink
  (a missing file, a refused deletion) never stops the sweep.
\<close>

theorem sweep_removes_expired_sessions:
  assumes "distinct (map fst (userSessions w))"
  shows "userSessions (cleanupSessions e w) =
           filter (\<lambda>entry. \<not> expired e (clock e (ticks w)) (snd entry)) (userSessions w) \<and>
         files (cleanupSessions e w) =
           files w - {p. \<not> unlink_denied e p \<and>
                        (\<exists>entry \<in> set (userSessions w).
                           expired e (clock e (ticks w)) (snd entry) \<and>
                           p \<in> set (present (screenshots (snd entry))))}"
  using cleanup_sessions [OF assms] cleanup_files by simp

lemma stale_facts:
  "userSessions stale_world = [(''7'', stale_session), (''8'', recent_session)]"
  "files stale_world = {''a.png'', ''locked.png'', ''c.png''}"
  "ticks stale_world = 0"
  "expired late_env (clock late_env 0) stale_session"
  "\<not> expired late_env (clock late_env 0) recent_session"
  "present (screenshots stale_session) = [''a.png'', ''locked.png'']"
  "unlink_denied late_env p = (p = ''locked.png'')"
  by (simp_all add: stale_world_def boot_def expired_def late_env_def demo_env_def
        stale_session_def recent_session_def timeoutMs_def present_def)

theorem sweep_removes_expired_sessions_witness:
  "distinct (map fst (userSessions stale_world)) \<and>
   userSessions (cleanupSessions late_env stale_world) = [(''8'', recent_session)] \<and>
   files (cleanupSessions late_env stale_world) = {''locked.png'', ''c.png''}"
proof -
  have d: "distinct (map fst (userSessions stale_world))" by (simp add: stale_facts)
  note t = sweep_removes_expired_sessions [OF d, of late_env]
  have s: "userSessions (cleanupSessions late_env stale_world) = [(''8'', recent_session)]"
    using t by (simp add: stale_facts)
  have f: "files (cleanupSessions late_env stale_world) = {''locked.png'', ''c.png''}"
    using t by (auto simp: stale_facts)
  from d s f show ?thesis by simp
qed

text \<open>
  The claim as it was stated fails when an unlink fails: the error is caught and logged,
  and the session is removed although its artifact is still on disk.
\<close>

theorem sweep_drops_session_with_undeleted_file_counterexample:
  "expired late_env (clock late_env (ticks stale_world)) stale_session \<and>
   Some ''locked.png'' \<in> set (screenshots stale_session) \<and>
   map_of (userSessions stale_world) ''7'' = Some stale_session \<and>
   ''locked.png'' \<in> files stale_world \<and>
   map_of (userSessions (cleanupSessions late_env stale_world)) ''7'' = None \<and>
   ''locked.png'' \<in> files (cleanupSessions late_env stale_world)"
proof -
  have d: "distinct (map fst (userSessions stale_world))" by (simp add: stale_facts)
  have s: "userSessions (cleanupSessions late_env stale_world) = [(''8'', recent_session)]"
    using cleanup_sessions [OF d, of late_env] by (simp add: stale_facts)
  have f: "''locked.png'' \<in> files (cleanupSessions late_env stale_world)"
    by (simp add: cleanup_files stale_facts)
  have x: "expired late_env (clock late_env (ticks stale_world)) stale_session"
    by (simp add: stale_facts)
  have m: "Some ''locked.png'' \<in> set (screenshots stale_session)"
    by (simp add: stale_session_def)
  have b: "map_of (userSessions stale_world) ''7'' = Some stale_session"
    by (simp add: stale_facts)
  have a: "map_of (userSessions (cleanupSessions late_env stale_world)) ''7'' = None"
    by (simp add: s)
  have g: "''locked.png'' \<in> files stale_world" by (simp add: stale_facts)
  from x m b g a f show ?thesis by (intro conjI)
qed

section \<open>The handlers never remove a session\<close>

lemma sessions_quiet_pre: "preorder_on_states sessions_quiet"
  by (simp add: preorder_on_states_def sessions_quiet_def)

lemma same_sessions_lift: "same_sessions (wld s) w' \<Longrightarrow> sessions_quiet s (s\<lparr>wld := w'\<rparr>)"
  by (simp add: sessions_quiet_def same_sessions_def)

lemma Date_now_same_sessions: "io_keeps same_sessions (io_total (Date_now e))"
  by (simp add: io_keeps_def same_sessions_def Date_now_def io_total_def)

lemma process_item_sessions_quiet: "io_keeps sessions_quiet (process_item e tot i p)"
  using process_item_frame
  by (rule io_keeps_weaken) (simp add: batch_frame_def sessions_quiet_def)

lemma pipeline_sessions_quiet: "io_keeps sessions_quiet (pipeline e tot ps)"
  unfolding pipeline_def answer_step_def finish_def
  by (intro io_keeps_intros io_keeps_modify io_keeps_total
        io_keeps_in_world [where Q = same_sessions] sessions_quiet_pre send_same_sessions
        Date_now_same_sessions answer_same_sessions same_sessions_lift ocr_loop_keeps
        process_item_sessions_quiet)
     (simp_all add: sessions_quiet_def)

lemma run_sessions_quiet:
  "userSessions (snd (snd (processSessionScreenshots e session w))) = userSessions w"
proof (cases "screenshots session = []")
  case True
  then show ?thesis by (simp add: processSessionScreenshots_def)
next
  case False
  have "sessions_quiet (start_state session w)
          (snd (pipeline e (length (filter_truthy (screenshots session)))
                  (filter_truthy (screenshots session)) (start_state session w)))"
    using pipeline_sessions_quiet by (rule io_keepsD)
  with False show ?thesis
    by (simp add: processSessionScreenshots_def sessions_quiet_def start_state_def
          case_prod_beta)
qed

lemma keys_kept_pre: "preorder_on_states keys_kept"
  by (auto simp: preorder_on_states_def keys_kept_def)

lemma same_sessions_keys: "same_sessions w w' \<Longrightarrow> keys_kept w w'"
  by (simp add: same_sessions_def keys_kept_def)

lemma send_keys: "io_keeps keys_kept (send e m)"
  using send_same_sessions by (rule io_keeps_weaken) (rule same_sessions_keys)

lemma takeScreenshot_keys: "io_keeps keys_kept (takeScreenshot e)"
  using takeScreenshot_same_sessions by (rule io_keeps_weaken) (rule same_sessions_keys)

lemma single_shot_keys: "io_keeps keys_kept (single_shot e)"
  using single_shot_same_sessions by (rule io_keeps_weaken) (rule same_sessions_keys)

lemma store_session_keys: "keys_kept w (store_session uid s w)"
  by (auto simp: keys_kept_def store_session_def AList.dom_update)

lemma getOrCreateSession_keys: "keys_kept w (snd (getOrCreateSession e uid cid w))"
  by (auto simp: keys_kept_def getOrCreateSession_def createSession_def Date_now_def
        Let_def AList.dom_update split: option.splits)

lemma run_batch_keys: "io_keeps keys_kept (run_batch e uid session)"
proof -
  have "keys_kept w (snd (run_batch e uid session w))" for w
    using run_sessions_quiet [of e session w]
    by (auto simp: run_batch_def keys_kept_def store_session_def AList.dom_update
          case_prod_beta)
  then show ?thesis by (simp add: io_keeps_def)
qed

lemma stack_command_keys: "io_keeps keys_kept (stack_command e digit uid cid)"
  unfolding stack_command_def capture_command_def process_command_def
  by (intro io_keeps_intros io_keeps_modify io_keeps_total keys_kept_pre send_keys
        takeScreenshot_keys store_session_keys getOrCreateSession_keys run_batch_keys)

lemma handle_text_keys: "io_keeps keys_kept (handle_text e m)"
proof (cases "single_digit (msg_text m)")
  case None
  then show ?thesis
    unfolding handle_text_def
    by (simp add: io_keeps_ret keys_kept_pre single_shot_keys)
next
  case (Some digit)
  then show ?thesis
    unfolding handle_text_def
    by (simp add: io_keeps_ret keys_kept_pre single_shot_keys stack_command_keys)
qed

lemma handle_all_keys: "keys_kept w (handle_all e ms w)"
proof (induction ms arbitrary: w)
  case Nil
  show ?case by (simp add: handle_all_def keys_kept_def)
next
  case (Cons m ms)
  have "keys_kept w (snd (handle_text e m w))" using handle_text_keys by (rule io_keepsD)
  moreover have "keys_kept (snd (handle_text e m w)) (handle_all e ms (snd (handle_text e m w)))"
    by (rule Cons.IH)
  ultimately show ?case by (auto simp: handle_all_def keys_kept_def)
qed

text \<open>The keys of the session map stay distinct under the handlers and the sweep.\<close>

lemma keys_distinct_kept_pre: "preorder_on_states keys_distinct_kept"
  by (simp add: preorder_on_states_def keys_distinct_kept_def)

lemma same_sessions_distinct: "same_sessions w w' \<Longrightarrow> keys_distinct_kept w w'"
  by (simp add: same_sessions_def keys_distinct_kept_def)

lemma store_session_distinct: "keys_distinct_kept w (store_session uid s w)"
  by (simp add: keys_distinct_kept_def store_session_def AList.distinct_update)

lemma getOrCreateSession_distinct: "keys_distinct_kept w (snd (getOrCreateSession e uid cid w))"
  by (simp add: keys_distinct_kept_def getOrCreateSession_def createSession_def Date_now_def
        Let_def AList.distinct_update split: option.splits)

lemma run_batch_distinct: "io_keeps keys_distinct_kept (run_batch e uid session)"
proof -
  have "keys_distinct_kept w (snd (run_batch e uid session w))" for w
    using run_sessions_quiet [of e session w]
    by (simp add: run_batch_def keys_distinct_kept_def store_session_def
          AList.distinct_update case_prod_beta)
  then show ?thesis by (simp add: io_keeps_def)
qed

lemma stack_command_distinct: "io_keeps keys_distinct_kept (stack_command e digit uid cid)"
  unfolding stack_command_def capture_command_def process_command_def
  by (intro io_keeps_intros io_keeps_modify io_keeps_total keys_distinct_kept_pre
        io_keeps_weaken [OF send_same_sessions same_sessions_distinct]
        io_keeps_weaken [OF takeScreenshot_same_sessions same_sessions_distinct]
        store_session_distinct getOrCreateSession_distinct run_batch_distinct)

lemma handle_text_distinct:
  assumes "distinct (map fst (userSessions w))"
  shows "distinct (map fst (userSessions (snd (handle_text e m w))))"
proof -
  have "io_keeps keys_distinct_kept (handle_text e m)"
    unfolding handle_text_def
    by (cases "single_digit (msg_text m)")
       (simp_all add: io_keeps_ret keys_distinct_kept_pre stack_command_distinct
          io_keeps_weaken [OF single_shot_same_sessions same_sessions_distinct])
  then have "keys_distinct_kept w (snd (handle_text e m w))" by (rule io_keepsD)
  with assms show ?thesis by (simp add: keys_distinct_kept_def)
qed

lemma cleanup_distinct:
  assumes "distinct (map fst (userSessions w))"
  shows "distinct (map fst (userSessions (cleanupSessions e w)))"
  using assms by (simp add: cleanup_sessions [OF assms] distinct_map_filter)

section \<open>The process command of a user without a session\<close>

lemma update_absent: "map_of xs k = None \<Longrightarrow> AList.update k v xs = xs @ [(k, v)]"
  by (induction xs) (auto simp: AList.update.simps)

lemma zero_is_a_command:
  "msg_text m = ''0'' \<Longrightarrow> \<not> js_includes (toLowerCase (msg_text m)) ''ss'' \<and>
     single_digit (msg_text m) = Some 0"
  by (simp add: toLowerCase_def lower_char_def single_digit_def)

lemma zero_command_sessions:
  assumes auth: "msg_chat m \<in> CHAT_IDS e" and zero: "msg_text m = ''0''"
    and new: "map_of (userSessions w) (msg_from m) = None"
  shows "userSessions (snd (handle_text e m w)) =
         userSessions w @ [(msg_from m, fresh_session e m w)]"
  using auth zero_is_a_command [OF zero] new
  by (simp add: handle_text_def stack_command_def getOrCreateSession_def createSession_def
        Date_now_def process_command_def filter_truthy_def io_apply send_def Let_def
        update_absent fresh_session_def)

lemma zero_command_ticks:
  assumes auth: "msg_chat m \<in> CHAT_IDS e" and zero: "msg_text m = ''0''"
    and new: "map_of (userSessions w) (msg_from m) = None"
  shows "ticks (snd (handle_text e m w)) = Suc (ticks w)"
  using auth zero_is_a_command [OF zero] new
  by (simp add: handle_text_def stack_command_def getOrCreateSession_def createSession_def
        Date_now_def process_command_def filter_truthy_def io_apply send_def Let_def)

lemma zero_command_reply:
  assumes auth: "msg_chat m \<in> CHAT_IDS e" and zero: "msg_text m = ''0''"
    and new: "map_of (userSessions w) (msg_from m) = None"
    and net: "net_ok e (sends w)"
  shows "fst (handle_text e m w) = Inr () \<and>
         outbox (snd (handle_text e m w)) = outbox w @ [Reply NoScreenshots]"
  using auth zero_is_a_command [OF zero] new net
  by (simp add: handle_text_def stack_command_def getOrCreateSession_def createSession_def
        Date_now_def process_command_def filter_truthy_def io_apply send_def Let_def)

lemma sweep_of_new_entry:
  assumes d: "distinct (map fst xs)" and new: "map_of xs k = None"
    and us: "userSessions v = xs @ [(k, s)]"
  shows "map_of (userSessions (cleanupSessions e v)) k =
         (if expired e (clock e (ticks v)) s then None else Some s)"
proof -
  have k: "k \<notin> fst ` set xs" using new by (simp add: map_of_eq_None_iff)
  then have dv: "distinct (map fst (userSessions v))" using d us by simp
  have none: "map_of (filter P xs) k = None" for P
    using k by (auto simp: map_of_eq_None_iff)
  show ?thesis
    by (simp add: cleanup_sessions [OF dv] us none map_add_def)
qed

text \<open>
  Claim C9.  Let an authorised user who has no session send the message \<open>0\<close>.  The handler
  calls \<open>getOrCreateSession\<close> before it looks at the digit, so a new empty session,
  stamped with the current time, is appended to the session map; this happens whatever
  the network does.  When the reply can be sent, it is the "no screenshots to process"
  reply.  The new entry persists: no later message to the bot, from anybody, removes its
  key, and the sweep that follows removes it exactly when the session is expired.
\<close>

theorem zero_command_leaves_a_session_behind:
  assumes auth: "msg_chat m \<in> CHAT_IDS e" and zero: "msg_text m = ''0''"
    and new: "map_of (userSessions w) (msg_from m) = None"
  shows "userSessions (snd (handle_text e m w)) =
           userSessions w @ [(msg_from m, fresh_session e m w)] \<and>
         (net_ok e (sends w) \<longrightarrow>
            fst (handle_text e m w) = Inr () \<and>
            outbox (snd (handle_text e m w)) = outbox w @ [Reply NoScreenshots]) \<and>
         (\<forall>ms. msg_from m \<in>
                 fst ` set (userSessions (handle_all e ms (snd (handle_text e m w))))) \<and>
         (distinct (map fst (userSessions w)) \<longrightarrow>
            map_of (userSessions (cleanupSessions e (snd (handle_text e m w)))) (msg_from m) =
              (if expired e (clock e (Suc (ticks w))) (fresh_session e m w) then None
               else Some (fresh_session e m w)))"
proof -
  note us = zero_command_sessions [OF assms]
  have kept: "msg_from m \<in> fst ` set (userSessions (handle_all e ms (snd (handle_text e m w))))"
    for ms
    using handle_all_keys [of "snd (handle_text e m w)" e ms] us
    by (auto simp: keys_kept_def)
  have swept: "map_of (userSessions (cleanupSessions e (snd (handle_text e m w)))) (msg_from m) =
              (if expired e (clock e (Suc (ticks w))) (fresh_session e m w) then None
               else Some (fresh_session e m w))"
    if "distinct (map fst (userSessions w))"
    using sweep_of_new_entry [OF that new us, of e] by (simp add: zero_command_ticks [OF assms])
  from us zero_command_reply [OF assms] kept swept show ?thesis by blast
qed

theorem zero_command_leaves_a_session_behind_witness:
  "msg_chat (demo_msg ''0'') \<in> CHAT_IDS demo_env \<and> msg_text (demo_msg ''0'') = ''0'' \<and>
   map_of (userSessions boot) (msg_from (demo_msg ''0'')) = None \<and>
   userSessions (snd (handle_text demo_env (demo_msg ''0'') boot)) =
     [(''7'', \<lparr>userId = ''7'', chatId = ''4242'', screenshots = [], extractedTexts = [],
              startTime = 1000\<rparr>)] \<and>
   outbox (snd (handle_text demo_env (demo_msg ''0'') boot)) = [Reply NoScreenshots] \<and>
   ''7'' \<in> fst ` set (userSessions (handle_all demo_env [stranger_msg ''1'', demo_msg ''hello'']
                                      (snd (handle_text demo_env (demo_msg ''0'') boot)))) \<and>
   map_of (userSessions (cleanupSessions demo_env
                          (snd (handle_text demo_env (demo_msg ''0'') boot)))) ''7'' =
     Some \<lparr>userId = ''7'', chatId = ''4242'', screenshots = [], extractedTexts = [],
           startTime = 1000\<rparr> \<and>
   map_of (userSessions (cleanupSessions jump_env
                          (snd (handle_text jump_env (demo_msg ''0'') boot)))) ''7'' = None"
proof -
  have auth: "msg_chat (demo_msg ''0'') \<in> CHAT_IDS demo_env"
    and auth': "msg_chat (demo_msg ''0'') \<in> CHAT_IDS jump_env"
    by (simp_all add: demo_msg_def demo_env_def jump_env_def)
  have zero: "msg_text (demo_msg ''0'') = ''0''" by (simp add: demo_msg_def)
  have new: "map_of (userSessions boot) (msg_from (demo_msg ''0'')) = None"
    by (simp add: boot_def)
  have from7: "msg_from (demo_msg ''0'') = ''7''" by (simp add: demo_msg_def)
  have fresh: "fresh_session demo_env (demo_msg ''0'') boot =
      \<lparr>userId = ''7'', chatId = ''4242'', screenshots = [], extractedTexts = [],
       startTime = 1000\<rparr>"
    by (simp add: fresh_session_def demo_msg_def demo_env_def boot_def)
  have d: "distinct (map fst (userSessions boot))" by (simp add: boot_def)
  have net: "net_ok demo_env (sends boot)" by (simp add: demo_env_def)
  have young: "\<not> expired demo_env (clock demo_env (Suc (ticks boot)))
                 (fresh_session demo_env (demo_msg ''0'') boot)"
    by (simp add: expired_def fresh_session_def timeoutMs_def demo_env_def boot_def)
  have old: "expired jump_env (clock jump_env (Suc (ticks boot)))
                 (fresh_session jump_env (demo_msg ''0'') boot)"
    by (simp add: expired_def fresh_session_def timeoutMs_def jump_env_def demo_env_def boot_def)
  note t = zero_command_leaves_a_session_behind [OF auth zero new]
  note u = zero_command_leaves_a_session_behind [OF auth' zero new]
  have c1: "userSessions (snd (handle_text demo_env (demo_msg ''0'') boot)) =
     [(''7'', \<lparr>userId = ''7'', chatId = ''4242'', screenshots = [], extractedTexts = [],
              startTime = 1000\<rparr>)]"
    using conjunct1 [OF t] by (simp add: fresh from7 boot_facts)
  have c2: "outbox (snd (handle_text demo_env (demo_msg ''0'') boot)) = [Reply NoScreenshots]"
    using t net by (simp add: boot_facts)
  have c3: "''7'' \<in> fst ` set (userSessions (handle_all demo_env
               [stranger_msg ''1'', demo_msg ''hello'']
               (snd (handle_text demo_env (demo_msg ''0'') boot))))"
    using t from7 by metis
  have c4: "map_of (userSessions (cleanupSessions demo_env
                          (snd (handle_text demo_env (demo_msg ''0'') boot)))) ''7'' =
     Some \<lparr>userId = ''7'', chatId = ''4242'', screenshots = [], extractedTexts = [],
           startTime = 1000\<rparr>"
    using t d young from7 fresh by metis
  have c5: "map_of (userSessions (cleanupSessions jump_env
                          (snd (handle_text jump_env (demo_msg ''0'') boot)))) ''7'' = None"
    using u d old from7 by metis
  show ?thesis using auth zero new c1 c2 c3 c4 c5 by (intro conjI)
qed

section \<open>Overwriting a slot\<close>

lemma files_kept_pre: "preorder_on_states files_kept"
  by (auto simp: preorder_on_states_def files_kept_def)

lemma send_files_kept: "io_keeps files_kept (send e m)"
  by (simp add: io_keeps_def files_kept_def send_def)

lemma takeScreenshot_files_kept: "io_keeps files_kept (takeScreenshot e)"
  by (auto simp: io_keeps_def files_kept_def takeScreenshot_def io_apply Date_now_def)

lemma store_session_files_kept: "files_kept w (store_session uid s w)"
  by (simp add: files_kept_def store_session_def)

lemma capture_command_never_unlinks:
  "io_keeps files_kept (capture_command e digit uid session)"
  unfolding capture_command_def
  by (intro io_keeps_intros io_keeps_modify files_kept_pre send_files_kept
        takeScreenshot_files_kept store_session_files_kept)

lemma capture_message_never_unlinks:
  assumes "single_digit (msg_text m) = Some digit" and "1 \<le> digit" and "digit \<le> 9"
  shows "files w \<subseteq> files (snd (handle_text e m w))"
proof -
  obtain c where c: "msg_text m = [c]"
    using assms(1) by (auto simp: single_digit_def split: list.splits)
  have nss: "\<not> js_includes (toLowerCase (msg_text m)) ''ss''"
    by (simp add: c toLowerCase_def)
  have create: "files (snd (getOrCreateSession e uid cid v)) = files v" for uid cid v
    by (simp add: getOrCreateSession_def createSession_def Date_now_def Let_def
          split: option.splits)
  have "io_keeps files_kept (stack_command e digit (msg_from m) (msg_chat m))"
    unfolding stack_command_def using assms(2,3)
    by (intro io_keeps_intros io_keeps_total files_kept_pre send_files_kept
          capture_command_never_unlinks)
       (simp_all add: files_kept_def create)
  then have "files_kept w (snd (stack_command e digit (msg_from m) (msg_chat m) w))"
    by (rule io_keepsD)
  then show ?thesis
    using assms(1) nss by (simp add: handle_text_def files_kept_def io_ret_def)
qed

lemmas eval_defs = handle_all_def handle_text_def demo_msg_def toLowerCase_def lower_char_def
  single_digit_def stack_command_def getOrCreateSession_def createSession_def
  Date_now_def capture_command_def takeScreenshot_def io_apply send_def
  store_session_def js_set_def filter_truthy_def truthy_def screenshot_path_def
  decimal_int_def boot_def Let_def AList.update.simps

text \<open>
  Claim C2 does not hold of the code.  A capture command stores the new path in its slot
  and deletes nothing (\<open>capture_message_never_unlinks\<close>), so the artifact that was in the
  slot stays on disk with no reference to it.  Here a user sends \<open>1\<close> twice: the slot holds
  the second artifact, both files exist; the sweep that expires the session deletes the
  second file and removes the session, and the first file is still there.
\<close>

theorem overwritten_capture_stays_on_disk:
  "userSessions (handle_all jump_env [demo_msg ''1''] boot) =
     [(''7'', \<lparr>userId = ''7'', chatId = ''4242'',
              screenshots = [Some ''screenshots/screenshot-5001000.png''],
              extractedTexts = [], startTime = 1000\<rparr>)] \<and>
   userSessions (handle_all jump_env [demo_msg ''1'', demo_msg ''1''] boot) =
     [(''7'', \<lparr>userId = ''7'', chatId = ''4242'',
              screenshots = [Some ''screenshots/screenshot-10001000.png''],
              extractedTexts = [], startTime = 1000\<rparr>)] \<and>
   files (handle_all jump_env [demo_msg ''1'', demo_msg ''1''] boot) =
     {''screenshots/screenshot-10001000.png'', ''screenshots/screenshot-5001000.png''} \<and>
   userSessions (cleanupSessions jump_env
                  (handle_all jump_env [demo_msg ''1'', demo_msg ''1''] boot)) = [] \<and>
   files (cleanupSessions jump_env
            (handle_all jump_env [demo_msg ''1'', demo_msg ''1''] boot)) =
     {''screenshots/screenshot-5001000.png''}"
  by (simp add: eval_defs jump_env_def demo_env_def cleanupSessions_def sweep_entry_def
        release_def unlink_def present_def timeoutMs_def AList.delete_simps)

end
